theory Spec2Isabelle
  imports Main
begin

section \<open>Documents and the store\<close>

text \<open>
  The backend keeps two Mongoose collections, \<open>Event\<close> and \<open>SwapRequest\<close>
  (models/Event.js, models/SwapRequest.js). An ObjectId is a \<open>nat\<close>; the store hands
  out fresh ones from a counter, which models their uniqueness across both collections.
  Users are only known by their id (\<open>req.user._id\<close>, set by the authentication
  middleware).
\<close>

type_synonym oid = nat

datatype event_status = BUSY | SWAPPABLE | SWAP_PENDING

datatype request_status = PENDING | ACCEPTED | REJECTED

record event =
  user_id :: oid
  title :: string
  start_time :: int
  end_time :: int
  status :: event_status

text \<open>
  \<open>swapRequestSchema\<close>. The field \<open>status\<close> is called \<open>req_status\<close> here, since
  \<open>status\<close> is the event's. The schema option \<open>timestamps: true\<close> makes Mongoose
  maintain the paths \<open>createdAt\<close> and \<open>updatedAt\<close>; \<open>createdAt\<close> is kept as the
  request's creation time, \<open>updatedAt\<close> and the events' timestamps are read by no
  handler and are left out.
\<close>

record swap_request =
  requester_id :: oid
  requester_event_id :: oid
  recipient_id :: oid
  recipient_event_id :: oid
  req_status :: request_status
  createdAt :: int

text \<open>
  The events are a map from id to document. The requests are kept in insertion order
  (the collection's natural order), each with its id.
\<close>

record db =
  events :: "oid \<rightharpoonup> event"
  requests :: "(oid \<times> swap_request) list"
  next_id :: oid

definition init_db :: db where
  "init_db = \<lparr>events = Map.empty, requests = [], next_id = 0\<rparr>"

text \<open>A response is an HTTP error (status code and the \<open>error\<close> text) or the data.\<close>

datatype error = Error nat string

text \<open>
  Reads are taken to succeed. A write may be rejected by the persistence layer; the
  handler's \<open>catch\<close> turns that into a 500 and whatever was written before stays
  written. The set of writes that fail is a parameter of every handler.
\<close>

datatype db_write =
  EventSave | EventDelete | RequestSave | RequesterEventWrite | RecipientEventWrite

section \<open>Request bodies and schema validation\<close>

text \<open>
  \<open>new Date(x)\<close> of a truthy body value is a date or \<open>Invalid Date\<close>; \<open>None\<close> in a
  body field stands for a missing (or otherwise falsy) value.
\<close>

datatype js_date = InvalidDate | Date int

record event_body =
  b_title :: "string option"
  b_start_time :: "js_date option"
  b_end_time :: "js_date option"
  b_status :: "string option"

record swap_body =
  b_mySlotId :: "oid option"
  b_requester_event_id :: "oid option"
  b_theirSlotId :: "oid option"
  b_recipient_event_id :: "oid option"

text \<open>
  JavaScript truthiness of a string-valued body field: missing and \<open>""\<close> are falsy.
  \<open>nonempty\<close> yields the value of a truthy field, \<open>str_or a b\<close> is \<open>a || b\<close>.
\<close>

fun nonempty :: "string option \<Rightarrow> string option" where
  "nonempty None = None"
| "nonempty (Some s) = (if s = [] then None else Some s)"

fun str_or :: "string option \<Rightarrow> string \<Rightarrow> string" where
  "str_or None dflt = dflt"
| "str_or (Some s) dflt = (if s = [] then dflt else s)"

text \<open>\<open>a || b\<close> on ids.\<close>

fun or_else :: "oid option \<Rightarrow> oid option \<Rightarrow> oid option" where
  "or_else (Some a) _ = Some a"
| "or_else None b = b"

text \<open>
  \<open>endDate <= startDate\<close>: a comparison with \<open>Invalid Date\<close> (NaN) is false.
\<close>

fun date_le :: "js_date \<Rightarrow> js_date \<Rightarrow> bool" where
  "date_le (Date a) (Date b) = (a \<le> b)"
| "date_le _ _ = False"

text \<open>
  The schema's \<open>trim: true\<close> on the title, which is \<open>String.prototype.trim\<close>. A
  character of a \<open>string\<close> stands for a code unit below 256; of these, \<open>trim\<close>
  removes the white space and line terminators U+0009 to U+000D, U+0020 and U+00A0.
  (The white space above U+00FF, such as U+3000 and U+FEFF, has no character here.)
\<close>

definition is_space :: "char \<Rightarrow> bool" where
  "is_space c =
     (c \<in> set [CHR 0x09, CHR 0x0A, CHR 0x0B, CHR 0x0C, CHR 0x0D, CHR 0x20, CHR 0xA0])"

definition trim :: "string \<Rightarrow> string" where
  "trim s = rev (dropWhile is_space (rev (dropWhile is_space s)))"

text \<open>The schema's \<open>enum: ['BUSY', 'SWAPPABLE', 'SWAP_PENDING']\<close>.\<close>

definition event_status_enum :: "string \<Rightarrow> event_status option" where
  "event_status_enum s =
     (if s = ''BUSY'' then Some BUSY
      else if s = ''SWAPPABLE'' then Some SWAPPABLE
      else if s = ''SWAP_PENDING'' then Some SWAP_PENDING
      else None)"

text \<open>
  Validation of the paths on \<open>save()\<close>: a title that is empty after trimming fails
  \<open>required\<close>, an invalid date fails the cast, a status outside the enum fails the
  enum validator.
\<close>

definition valid_title :: "string \<Rightarrow> string option" where
  "valid_title t = (if trim t = [] then None else Some (trim t))"

fun valid_date :: "js_date \<Rightarrow> int option" where
  "valid_date (Date t) = Some t"
| "valid_date InvalidDate = None"

section \<open>routes/events.js\<close>

text \<open>\<open>router.post('/')\<close>: create an event.\<close>

definition events_post ::
  "db_write set \<Rightarrow> db \<Rightarrow> oid \<Rightarrow> event_body \<Rightarrow> (error + oid \<times> event) \<times> db" where
  "events_post F d uid b =
     (case (nonempty (b_title b), b_start_time b, b_end_time b) of
        (Some t, Some startDate, Some endDate) \<Rightarrow>
          if date_le endDate startDate
          then (Inl (Error 400 ''End time must be after start time''), d)
          else
            (case (valid_title t, valid_date startDate, valid_date endDate,
                   event_status_enum (str_or (b_status b) ''BUSY'')) of
               (Some t', Some s, Some e, Some st) \<Rightarrow>
                 if EventSave \<in> F
                 then (Inl (Error 500 ''Failed to create event''), d)
                 else
                   (let ev = \<lparr>user_id = uid, title = t', start_time = s, end_time = e, status = st\<rparr>
                    in (Inr (next_id d, ev),
                        d\<lparr>events := (events d)(next_id d \<mapsto> ev), next_id := Suc (next_id d)\<rparr>))
             | _ \<Rightarrow> (Inl (Error 500 ''Failed to create event''), d))
      | _ \<Rightarrow> (Inl (Error 400 ''Title, start time, and end time are required''), d))"

text \<open>
  \<open>router.put('/:id')\<close>: update an event. Each truthy body field is assigned, then the
  document is validated and saved. \<open>save()\<close> sends a write only when an assignment
  changed a path: an update that leaves the document as it was cannot fail on the write.
\<close>

definition events_put ::
  "db_write set \<Rightarrow> db \<Rightarrow> oid \<Rightarrow> oid \<Rightarrow> event_body \<Rightarrow> (error + event) \<times> db" where
  "events_put F d uid eid b =
     (case events d eid of
        None \<Rightarrow> (Inl (Error 404 ''Event not found''), d)
      | Some ev \<Rightarrow>
          if user_id ev \<noteq> uid then (Inl (Error 404 ''Event not found''), d)
          else if status ev = SWAP_PENDING
          then (Inl (Error 400 ''Cannot modify events with pending swaps''), d)
          else
            (case (case nonempty (b_title b) of None \<Rightarrow> Some (title ev) | Some t \<Rightarrow> valid_title t,
                   case b_start_time b of None \<Rightarrow> Some (start_time ev) | Some x \<Rightarrow> valid_date x,
                   case b_end_time b of None \<Rightarrow> Some (end_time ev) | Some x \<Rightarrow> valid_date x,
                   case nonempty (b_status b) of None \<Rightarrow> Some (status ev)
                   | Some x \<Rightarrow> event_status_enum x) of
               (Some t', Some s, Some e, Some st) \<Rightarrow>
                 (let ev' = ev\<lparr>title := t', start_time := s, end_time := e, status := st\<rparr>
                  in if ev' \<noteq> ev \<and> EventSave \<in> F
                     then (Inl (Error 500 ''Failed to update event''), d)
                     else (Inr ev', d\<lparr>events := (events d)(eid \<mapsto> ev')\<rparr>))
             | _ \<Rightarrow> (Inl (Error 500 ''Failed to update event''), d)))"

text \<open>\<open>router.delete('/:id')\<close>: delete an event. The status is not looked at.\<close>

definition events_delete ::
  "db_write set \<Rightarrow> db \<Rightarrow> oid \<Rightarrow> oid \<Rightarrow> (error + string) \<times> db" where
  "events_delete F d uid eid =
     (case events d eid of
        None \<Rightarrow> (Inl (Error 404 ''Event not found''), d)
      | Some ev \<Rightarrow>
          if user_id ev \<noteq> uid then (Inl (Error 404 ''Event not found''), d)
          else if EventDelete \<in> F then (Inl (Error 500 ''Failed to delete event''), d)
          else (Inr ''Event deleted successfully'', d\<lparr>events := (events d)(eid := None)\<rparr>))"

section \<open>routes/swapRequests.js\<close>

text \<open>
  \<open>populate('requester_event_id')\<close>, \<open>populate('recipient_event_id')\<close>: the request
  with the two referenced events as they are stored now (\<open>None\<close> where the event is
  gone). The users' names and e-mails, which \<open>populate\<close> also joins in, are not
  modelled.
\<close>

type_synonym populated = "oid \<times> swap_request \<times> event option \<times> event option"

definition populate :: "db \<Rightarrow> oid \<times> swap_request \<Rightarrow> populated" where
  "populate d p =
     (fst p, snd p, events d (requester_event_id (snd p)), events d (recipient_event_id (snd p)))"

text \<open>
  The sort key of both list routes is the path \<open>created_at\<close>. No handler writes that
  path and the schema does not declare it (its \<open>timestamps: true\<close> maintains
  \<open>createdAt\<close>), so it is null in every stored request.
\<close>

definition created_at :: "swap_request \<Rightarrow> int option" where
  "created_at r = None"

text \<open>
  \<open>.sort({ key: -1 })\<close>: descending by the key, null below every date, documents with
  equal keys in the order the collection yields them.
\<close>

fun null_le :: "int option \<Rightarrow> int option \<Rightarrow> bool" where
  "null_le None _ = True"
| "null_le (Some a) None = False"
| "null_le (Some a) (Some b) = (a \<le> b)"

fun insort_desc :: "('a \<Rightarrow> int option) \<Rightarrow> 'a \<Rightarrow> 'a list \<Rightarrow> 'a list" where
  "insort_desc k x [] = [x]"
| "insort_desc k x (y # ys) =
     (if null_le (k y) (k x) then x # y # ys else y # insort_desc k x ys)"

definition sort_desc :: "('a \<Rightarrow> int option) \<Rightarrow> 'a list \<Rightarrow> 'a list" where
  "sort_desc k xs = foldr (insort_desc k) xs []"

text \<open>\<open>router.get('/incoming')\<close> and \<open>router.get('/outgoing')\<close>.\<close>

definition swap_requests_incoming :: "db \<Rightarrow> oid \<Rightarrow> populated list \<times> db" where
  "swap_requests_incoming d uid =
     (map (populate d)
        (sort_desc (\<lambda>p. created_at (snd p))
           (filter (\<lambda>p. recipient_id (snd p) = uid) (requests d))), d)"

definition swap_requests_outgoing :: "db \<Rightarrow> oid \<Rightarrow> populated list \<times> db" where
  "swap_requests_outgoing d uid =
     (map (populate d)
        (sort_desc (\<lambda>p. created_at (snd p))
           (filter (\<lambda>p. requester_id (snd p) = uid) (requests d))), d)"

text \<open>
  \<open>Event.findByIdAndUpdate(id, { status })\<close>: sets the status of the stored event;
  nothing happens when there is no such event.
\<close>

definition findByIdAndUpdate :: "db \<Rightarrow> oid \<Rightarrow> event_status \<Rightarrow> db" where
  "findByIdAndUpdate d i st =
     (case events d i of
        None \<Rightarrow> d
      | Some e \<Rightarrow> d\<lparr>events := (events d)(i \<mapsto> e\<lparr>status := st\<rparr>)\<rparr>)"

text \<open>
  \<open>event.save()\<close> of a loaded event document after the swap. The write is taken to
  be sent, which is so whenever the swap changed the document (it did not if the event
  was already \<open>BUSY\<close> and owned by the other event's owner).
\<close>

definition save_event :: "db \<Rightarrow> oid \<Rightarrow> event \<Rightarrow> db" where
  "save_event d i e = d\<lparr>events := (events d)(i \<mapsto> e)\<rparr>"

text \<open>\<open>swapRequest.save()\<close> after \<open>swapRequest.status = newStatus\<close>.\<close>

definition save_request_status :: "db \<Rightarrow> oid \<Rightarrow> request_status \<Rightarrow> db" where
  "save_request_status d rid st =
     d\<lparr>requests := map (\<lambda>p. if fst p = rid then (fst p, (snd p)\<lparr>req_status := st\<rparr>) else p)
                        (requests d)\<rparr>"

text \<open>
  \<open>router.post('/')\<close>: create a swap request. \<open>now\<close> is the clock at the time of
  the save. The request is saved first, then both events are set to \<open>SWAP_PENDING\<close>
  by two independent writes. (\<open>app.post('/api/swap-request')\<close> of server.js is the
  same code, reading \<open>mySlotId\<close> and \<open>theirSlotId\<close> only.)
\<close>

definition swap_requests_post ::
  "db_write set \<Rightarrow> db \<Rightarrow> oid \<Rightarrow> int \<Rightarrow> swap_body \<Rightarrow> (error + populated) \<times> db" where
  "swap_requests_post F d uid now b =
     (case (or_else (b_mySlotId b) (b_requester_event_id b),
            or_else (b_theirSlotId b) (b_recipient_event_id b)) of
        (Some mySlotId, Some theirSlotId) \<Rightarrow>
          (case (events d mySlotId, events d theirSlotId) of
             (Some requesterEvent, Some recipientEvent) \<Rightarrow>
               if user_id requesterEvent \<noteq> uid
               then (Inl (Error 403 ''You do not own the requester event''), d)
               else if status requesterEvent \<noteq> SWAPPABLE \<or> status recipientEvent \<noteq> SWAPPABLE
               then (Inl (Error 400 ''One or both events are no longer swappable''), d)
               else if RequestSave \<in> F
               then (Inl (Error 500 ''Failed to create swap request''), d)
               else
                 (let swapRequest =
                        \<lparr>requester_id = uid, requester_event_id = mySlotId,
                         recipient_id = user_id recipientEvent,
                         recipient_event_id = theirSlotId,
                         req_status = PENDING, createdAt = now\<rparr>;
                      d1 = d\<lparr>requests := requests d @ [(next_id d, swapRequest)],
                              next_id := Suc (next_id d)\<rparr>;
                      d2 = (if RequesterEventWrite \<in> F then d1
                            else findByIdAndUpdate d1 mySlotId SWAP_PENDING);
                      d3 = (if RecipientEventWrite \<in> F then d2
                            else findByIdAndUpdate d2 theirSlotId SWAP_PENDING)
                  in if RequesterEventWrite \<in> F \<or> RecipientEventWrite \<in> F
                     then (Inl (Error 500 ''Failed to create swap request''), d3)
                     else (Inr (populate d3 (next_id d, swapRequest)), d3))
           | _ \<Rightarrow> (Inl (Error 404 ''One or both events not found''), d))
      | _ \<Rightarrow> (Inl (Error 400 ''Both event IDs are required (mySlotId and theirSlotId)''), d))"

text \<open>
  The handler is asynchronous: it awaits the two reads (lines 56 to 59), then the save
  of the request and the two event updates, with no transaction around them, so other
  requests can be served in between. \<open>propose_reads\<close> is the part up to the status
  check, yielding what the handler keeps in memory; \<open>propose_writes\<close> is the rest,
  run on the store as it is by then. One after the other on the same store they are
  \<open>swap_requests_post\<close> (lemma \<open>propose_split\<close>).
\<close>

definition propose_reads :: "db \<Rightarrow> oid \<Rightarrow> swap_body \<Rightarrow> error + oid \<times> oid \<times> oid" where
  "propose_reads d uid b =
     (case (or_else (b_mySlotId b) (b_requester_event_id b),
            or_else (b_theirSlotId b) (b_recipient_event_id b)) of
        (Some mySlotId, Some theirSlotId) \<Rightarrow>
          (case (events d mySlotId, events d theirSlotId) of
             (Some requesterEvent, Some recipientEvent) \<Rightarrow>
               if user_id requesterEvent \<noteq> uid
               then Inl (Error 403 ''You do not own the requester event'')
               else if status requesterEvent \<noteq> SWAPPABLE \<or> status recipientEvent \<noteq> SWAPPABLE
               then Inl (Error 400 ''One or both events are no longer swappable'')
               else Inr (mySlotId, theirSlotId, user_id recipientEvent)
           | _ \<Rightarrow> Inl (Error 404 ''One or both events not found''))
      | _ \<Rightarrow> Inl (Error 400 ''Both event IDs are required (mySlotId and theirSlotId)''))"

definition propose_writes ::
  "db_write set \<Rightarrow> db \<Rightarrow> oid \<Rightarrow> int \<Rightarrow> oid \<times> oid \<times> oid \<Rightarrow> (error + populated) \<times> db" where
  "propose_writes F d uid now c =
     (case c of (mySlotId, theirSlotId, recipient) \<Rightarrow>
        if RequestSave \<in> F
        then (Inl (Error 500 ''Failed to create swap request''), d)
        else
          (let swapRequest =
                 \<lparr>requester_id = uid, requester_event_id = mySlotId,
                  recipient_id = recipient, recipient_event_id = theirSlotId,
                  req_status = PENDING, createdAt = now\<rparr>;
               d1 = d\<lparr>requests := requests d @ [(next_id d, swapRequest)],
                       next_id := Suc (next_id d)\<rparr>;
               d2 = (if RequesterEventWrite \<in> F then d1
                     else findByIdAndUpdate d1 mySlotId SWAP_PENDING);
               d3 = (if RecipientEventWrite \<in> F then d2
                     else findByIdAndUpdate d2 theirSlotId SWAP_PENDING)
           in if RequesterEventWrite \<in> F \<or> RecipientEventWrite \<in> F
              then (Inl (Error 500 ''Failed to create swap request''), d3)
              else (Inr (populate d3 (next_id d, swapRequest)), d3)))"

text \<open>
  \<open>router.put('/:id/respond')\<close> and its copy \<open>swapResponseHandler\<close>
  (\<open>POST /api/swap-response/:requestId\<close>): accept or reject a swap request. The
  request's new status is saved first; then, on accept, the two loaded event documents
  get each other's \<open>user_id\<close> and status \<open>BUSY\<close> and are saved, and on reject both
  stored events are set to \<open>SWAPPABLE\<close>. Every \<open>nat\<close> is a valid ObjectId, so the
  400 for an invalid id has no branch here; the second existence check, inside the
  accept branch, cannot fail after the first and is left out.
\<close>

definition swapResponseHandler ::
  "db_write set \<Rightarrow> db \<Rightarrow> oid \<Rightarrow> oid \<Rightarrow> bool \<Rightarrow> (error + populated) \<times> db" where
  "swapResponseHandler F d uid rid accept =
     (case map_of (requests d) rid of
        None \<Rightarrow> (Inl (Error 404 ''Swap request not found''), d)
      | Some swapRequest \<Rightarrow>
          if recipient_id swapRequest \<noteq> uid
          then (Inl (Error 403 ''You are not authorized to respond to this request''), d)
          else if req_status swapRequest \<noteq> PENDING
          then (Inl (Error 400 ''Swap request is no longer pending''), d)
          else
            (case (events d (requester_event_id swapRequest),
                   events d (recipient_event_id swapRequest)) of
               (Some requesterEvent, Some recipientEvent) \<Rightarrow>
                 if RequestSave \<in> F
                 then (Inl (Error 500 ''Failed to respond to swap request''), d)
                 else
                   (let newStatus = (if accept then ACCEPTED else REJECTED);
                        d1 = save_request_status d rid newStatus;
                        d2 = (if RequesterEventWrite \<in> F then d1
                              else if accept
                              then save_event d1 (requester_event_id swapRequest)
                                     (requesterEvent\<lparr>user_id := user_id recipientEvent,
                                                     status := BUSY\<rparr>)
                              else findByIdAndUpdate d1 (requester_event_id swapRequest) SWAPPABLE);
                        d3 = (if RecipientEventWrite \<in> F then d2
                              else if accept
                              then save_event d2 (recipient_event_id swapRequest)
                                     (recipientEvent\<lparr>user_id := user_id requesterEvent,
                                                     status := BUSY\<rparr>)
                              else findByIdAndUpdate d2 (recipient_event_id swapRequest) SWAPPABLE)
                    in if RequesterEventWrite \<in> F \<or> RecipientEventWrite \<in> F
                       then (Inl (Error 500 ''Failed to respond to swap request''), d3)
                       else (Inr (populate d3 (rid, swapRequest\<lparr>req_status := newStatus\<rparr>)), d3))
             | _ \<Rightarrow> (Inl (Error 404 ''One or both events no longer exist''), d)))"

section \<open>Runs of operations\<close>

text \<open>
  The five mutating operations with their parameters. A run applies them to the empty
  store one after the other, each handler finishing before the next starts and every
  write succeeding.
\<close>

datatype op =
  CreateEvent oid event_body
| UpdateEvent oid oid event_body
| DeleteEvent oid oid
| Propose oid int swap_body
| Respond oid oid bool

fun step :: "db \<Rightarrow> op \<Rightarrow> db" where
  "step d (CreateEvent uid b) = snd (events_post {} d uid b)"
| "step d (UpdateEvent uid eid b) = snd (events_put {} d uid eid b)"
| "step d (DeleteEvent uid eid) = snd (events_delete {} d uid eid)"
| "step d (Propose uid now b) = snd (swap_requests_post {} d uid now b)"
| "step d (Respond uid rid accept) = snd (swapResponseHandler {} d uid rid accept)"

definition run :: "op list \<Rightarrow> db" where
  "run ops = foldl step init_db ops"

text \<open>A request references an event as its requester event or as its recipient event.\<close>

definition references :: "swap_request \<Rightarrow> oid \<Rightarrow> bool" where
  "references r e = (requester_event_id r = e \<or> recipient_event_id r = e)"

text \<open>The number of \<open>PENDING\<close> requests that reference an event.\<close>

definition pending_refs :: "db \<Rightarrow> oid \<Rightarrow> nat" where
  "pending_refs d e =
     length (filter (\<lambda>p. req_status (snd p) = PENDING \<and> references (snd p) e) (requests d))"

text \<open>
  The events an operation locks by hand: a create or update call that succeeds and
  stores its event as \<open>SWAP_PENDING\<close>. (Update refuses an event that is already
  \<open>SWAP_PENDING\<close>, so such an update put the caller's status there.) \<open>hand_locked\<close>
  collects them along a run that starts in \<open>d\<close>.
\<close>

fun locks_by_hand :: "db \<Rightarrow> op \<Rightarrow> oid set" where
  "locks_by_hand d (CreateEvent uid b) =
     (case fst (events_post {} d uid b) of
        Inr p \<Rightarrow> if status (snd p) = SWAP_PENDING then {fst p} else {}
      | Inl err \<Rightarrow> {})"
| "locks_by_hand d (UpdateEvent uid eid b) =
     (case fst (events_put {} d uid eid b) of
        Inr ev \<Rightarrow> if status ev = SWAP_PENDING then {eid} else {}
      | Inl err \<Rightarrow> {})"
| "locks_by_hand d (DeleteEvent uid eid) = {}"
| "locks_by_hand d (Propose uid now b) = {}"
| "locks_by_hand d (Respond uid rid accept) = {}"

fun hand_locked :: "db \<Rightarrow> op list \<Rightarrow> oid set" where
  "hand_locked d [] = {}"
| "hand_locked d (x # xs) = locks_by_hand d x \<union> hand_locked (step d x) xs"

text \<open>The names of the specification for the failures of the two swap routes.\<close>

definition NotSwappable :: error where
  "NotSwappable = Error 400 ''One or both events are no longer swappable''"

definition AlreadyResolved :: error where
  "AlreadyResolved = Error 400 ''Swap request is no longer pending''"

definition Forbidden :: "string \<Rightarrow> error" where
  "Forbidden msg = Error 403 msg"

section \<open>Invariants of the store\<close>

text \<open>
  Ids are fresh: the request ids are distinct, and every id in use (of a request, of an
  event, or referenced by a request) lies below the counter.
\<close>

definition fresh_ids :: "db \<Rightarrow> bool" where
  "fresh_ids d =
     (distinct (map fst (requests d)) \<and>
      (\<forall>p \<in> set (requests d). fst p < next_id d \<and> requester_event_id (snd p) < next_id d \<and>
          recipient_event_id (snd p) < next_id d) \<and>
      (\<forall>e ev. events d e = Some ev \<longrightarrow> e < next_id d))"

text \<open>
  A stored event that some \<open>PENDING\<close> request references is \<open>SWAP_PENDING\<close> and is
  referenced by exactly one \<open>PENDING\<close> request.
\<close>

definition locked_inv :: "db \<Rightarrow> bool" where
  "locked_inv d =
     (\<forall>e ev. events d e = Some ev \<longrightarrow> 0 < pending_refs d e \<longrightarrow>
        status ev = SWAP_PENDING \<and> pending_refs d e = 1)"

text \<open>
  With \<open>L\<close> the events locked by hand so far: a stored event of \<open>L\<close> is
  \<open>SWAP_PENDING\<close> and no \<open>PENDING\<close> request references it; any other stored event
  that is \<open>SWAP_PENDING\<close> is referenced by a \<open>PENDING\<close> request.
\<close>

definition hand_inv :: "db \<Rightarrow> oid set \<Rightarrow> bool" where
  "hand_inv d L =
     ((\<forall>e \<in> L. e < next_id d) \<and>
      (\<forall>e ev. events d e = Some ev \<longrightarrow>
         (if e \<in> L then status ev = SWAP_PENDING \<and> pending_refs d e = 0
          else status ev = SWAP_PENDING \<longrightarrow> 0 < pending_refs d e)))"

section \<open>Sample inputs\<close>

text \<open>
  Bodies and short runs used to evaluate the handlers on concrete inputs: two users, 7
  and 8, each create one event; user 7 proposes to swap event 0 against event 1; user 8
  accepts.
\<close>

definition ev_body :: "string \<Rightarrow> int \<Rightarrow> int \<Rightarrow> string option \<Rightarrow> event_body" where
  "ev_body t a z st =
     \<lparr>b_title = Some t, b_start_time = Some (Date a), b_end_time = Some (Date z), b_status = st\<rparr>"

definition status_only :: "string \<Rightarrow> event_body" where
  "status_only s = \<lparr>b_title = None, b_start_time = None, b_end_time = None, b_status = Some s\<rparr>"

definition slots :: "oid \<Rightarrow> oid \<Rightarrow> swap_body" where
  "slots my their =
     \<lparr>b_mySlotId = Some my, b_requester_event_id = None,
      b_theirSlotId = Some their, b_recipient_event_id = None\<rparr>"

definition created :: "oid \<Rightarrow> string option \<Rightarrow> oid \<Rightarrow> string option \<Rightarrow> op list" where
  "created u1 s1 u2 s2 =
     [CreateEvent u1 (ev_body ''a'' 1 2 s1), CreateEvent u2 (ev_body ''b'' 3 4 s2)]"

definition two_events :: "oid \<Rightarrow> event_status \<Rightarrow> oid \<Rightarrow> event_status \<Rightarrow> db" where
  "two_events u1 t1 u2 t2 =
     \<lparr>events = [0 \<mapsto> \<lparr>user_id = u1, title = ''a'', start_time = 1, end_time = 2, status = t1\<rparr>,
                1 \<mapsto> \<lparr>user_id = u2, title = ''b'', start_time = 3, end_time = 4, status = t2\<rparr>],
      requests = [], next_id = 2\<rparr>"

definition proposed :: "op list" where
  "proposed = created 7 (Some ''SWAPPABLE'') 8 (Some ''SWAPPABLE'') @ [Propose 7 100 (slots 0 1)]"

definition proposed_db :: db where
  "proposed_db =
     \<lparr>events = [0 \<mapsto> \<lparr>user_id = 7, title = ''a'', start_time = 1, end_time = 2,
                       status = SWAP_PENDING\<rparr>,
                1 \<mapsto> \<lparr>user_id = 8, title = ''b'', start_time = 3, end_time = 4,
                       status = SWAP_PENDING\<rparr>],
      requests = [(2, \<lparr>requester_id = 7, requester_event_id = 0, recipient_id = 8,
                       recipient_event_id = 1, req_status = PENDING, createdAt = 100\<rparr>)],
      next_id = 3\<rparr>"

definition accepted :: "op list" where
  "accepted = proposed @ [Respond 8 2 True]"

definition accepted_db :: db where
  "accepted_db =
     \<lparr>events = [0 \<mapsto> \<lparr>user_id = 8, title = ''a'', start_time = 1, end_time = 2, status = BUSY\<rparr>,
                1 \<mapsto> \<lparr>user_id = 7, title = ''b'', start_time = 3, end_time = 4, status = BUSY\<rparr>],
      requests = [(2, \<lparr>requester_id = 7, requester_event_id = 0, recipient_id = 8,
                       recipient_event_id = 1, req_status = ACCEPTED, createdAt = 100\<rparr>)],
      next_id = 3\<rparr>"

text \<open>
  Users 7 and 8 create two events each; user 7 proposes event 0 against event 1 at
  time 100 and event 2 against event 3 at time 200.
\<close>

definition two_proposals :: "op list" where
  "two_proposals =
     [CreateEvent 7 (ev_body ''a'' 1 2 (Some ''SWAPPABLE'')),
      CreateEvent 8 (ev_body ''b'' 3 4 (Some ''SWAPPABLE'')),
      CreateEvent 7 (ev_body ''a'' 5 6 (Some ''SWAPPABLE'')),
      CreateEvent 8 (ev_body ''b'' 7 8 (Some ''SWAPPABLE'')),
      Propose 7 100 (slots 0 1),
      Propose 7 200 (slots 2 3)]"

text \<open>
  After the proposal, user 9 creates event 3 with status \<open>SWAP_PENDING\<close>.
\<close>

definition proposed_and_locked :: "op list" where
  "proposed_and_locked = proposed @ [CreateEvent 9 (ev_body ''a'' 5 6 (Some ''SWAP_PENDING''))]"

text \<open>
  Users 7, 8 and 9 each create a \<open>SWAPPABLE\<close> event (0, 1 and 2). Then two proposals
  against event 1 are in flight together, one from user 7 and one from user 9: both
  have done their reads on that store, and \<open>raced\<close> is the store after the writes of
  the first and then of the second.
\<close>

definition three_swappable :: "op list" where
  "three_swappable =
     created 7 (Some ''SWAPPABLE'') 8 (Some ''SWAPPABLE'') @
     [CreateEvent 9 (ev_body ''a'' 5 6 (Some ''SWAPPABLE''))]"

definition raced :: db where
  "raced =
     snd (propose_writes {}
            (snd (propose_writes {} (run three_swappable) 7 100 (0, 1, 8))) 9 101 (2, 1, 8))"

section \<open>Basic facts about the store\<close>

lemma findByIdAndUpdate_events:
  "events (findByIdAndUpdate d i st) e =
     (if e = i then map_option (\<lambda>x. x\<lparr>status := st\<rparr>) (events d e) else events d e)"
  by (simp add: findByIdAndUpdate_def split: option.splits)

lemma findByIdAndUpdate_requests: "requests (findByIdAndUpdate d i st) = requests d"
  by (simp add: findByIdAndUpdate_def split: option.splits)

lemma findByIdAndUpdate_next_id: "next_id (findByIdAndUpdate d i st) = next_id d"
  by (simp add: findByIdAndUpdate_def split: option.splits)

lemma save_event_requests: "requests (save_event d i e) = requests d"
  by (simp add: save_event_def)

lemma map_of_set_status:
  "map_of (map (\<lambda>p. if fst p = rid then (fst p, (snd p)\<lparr>req_status := st\<rparr>) else p) xs) k =
     (if k = rid then map_option (\<lambda>r. r\<lparr>req_status := st\<rparr>) (map_of xs k) else map_of xs k)"
  by (induction xs) auto

lemma save_request_status_lookup:
  "map_of (requests (save_request_status d rid st)) k =
     (if k = rid then map_option (\<lambda>r. r\<lparr>req_status := st\<rparr>) (map_of (requests d) k)
      else map_of (requests d) k)"
  by (simp add: save_request_status_def map_of_set_status)

lemma enum_nonempty: "event_status_enum s = Some st \<Longrightarrow> s \<noteq> []"
  by (auto simp: event_status_enum_def)

lemma run_snoc: "run (xs @ [x]) = step (run xs) x"
  by (simp add: run_def)

lemma run_append: "run (xs @ ys) = foldl step (run xs) ys"
  by (simp add: run_def)

subsection \<open>The sample runs, evaluated\<close>

lemma trim_sample: "trim ''a'' = ''a''" "trim ''b'' = ''b''"
  by (simp_all add: trim_def is_space_def)

lemma run_created:
  assumes "event_status_enum (str_or s1 ''BUSY'') = Some t1"
    and "event_status_enum (str_or s2 ''BUSY'') = Some t2"
  shows "run (created u1 s1 u2 s2) = two_events u1 t1 u2 t2"
  using assms
  by (simp add: run_def created_def two_events_def init_db_def events_post_def ev_body_def
      valid_title_def trim_sample Let_def numeral_2_eq_2)

lemma run_proposed: "run proposed = proposed_db"
  unfolding proposed_def run_snoc
  by (simp add: run_created [where ?t1.0 = SWAPPABLE and ?t2.0 = SWAPPABLE]
      event_status_enum_def two_events_def proposed_db_def swap_requests_post_def slots_def
      Let_def findByIdAndUpdate_def numeral_3_eq_3 fun_upd_twist)

lemma run_accepted: "run accepted = accepted_db"
  unfolding accepted_def run_snoc run_proposed
  by (simp add: proposed_db_def accepted_db_def swapResponseHandler_def Let_def
      save_request_status_def save_event_def fun_upd_twist)

lemma run_proposed_and_locked:
  "run proposed_and_locked =
     \<lparr>events = [0 \<mapsto> \<lparr>user_id = 7, title = ''a'', start_time = 1, end_time = 2,
                       status = SWAP_PENDING\<rparr>,
                1 \<mapsto> \<lparr>user_id = 8, title = ''b'', start_time = 3, end_time = 4,
                       status = SWAP_PENDING\<rparr>,
                3 \<mapsto> \<lparr>user_id = 9, title = ''a'', start_time = 5, end_time = 6,
                       status = SWAP_PENDING\<rparr>],
      requests = [(2, \<lparr>requester_id = 7, requester_event_id = 0, recipient_id = 8,
                       recipient_event_id = 1, req_status = PENDING, createdAt = 100\<rparr>)],
      next_id = 4\<rparr>"
  unfolding proposed_and_locked_def run_snoc run_proposed
  by (simp add: proposed_db_def events_post_def ev_body_def valid_title_def trim_sample
      event_status_enum_def Let_def)

lemma run_three_swappable:
  "run three_swappable =
     \<lparr>events = [0 \<mapsto> \<lparr>user_id = 7, title = ''a'', start_time = 1, end_time = 2,
                       status = SWAPPABLE\<rparr>,
                1 \<mapsto> \<lparr>user_id = 8, title = ''b'', start_time = 3, end_time = 4,
                       status = SWAPPABLE\<rparr>,
                2 \<mapsto> \<lparr>user_id = 9, title = ''a'', start_time = 5, end_time = 6,
                       status = SWAPPABLE\<rparr>],
      requests = [], next_id = 3\<rparr>"
  unfolding three_swappable_def run_snoc
  by (simp add: run_created [where ?t1.0 = SWAPPABLE and ?t2.0 = SWAPPABLE]
      two_events_def events_post_def ev_body_def valid_title_def trim_sample
      event_status_enum_def Let_def)

lemma step_keeps_resolved:
  assumes "map_of (requests d) rid = Some r" and "req_status r \<noteq> PENDING"
  shows "map_of (requests (step d x)) rid = Some r"
proof (cases x)
  case (CreateEvent uid b)
  then show ?thesis using assms
    by (auto simp: events_post_def Let_def split: option.splits prod.splits)
next
  case (UpdateEvent uid eid b)
  then show ?thesis using assms
    by (auto simp: events_put_def Let_def split: option.splits prod.splits)
next
  case (DeleteEvent uid eid)
  then show ?thesis using assms
    by (auto simp: events_delete_def split: option.splits)
next
  case (Propose uid now b)
  then show ?thesis using assms
    by (auto simp: swap_requests_post_def Let_def findByIdAndUpdate_requests
        split: option.splits prod.splits)
next
  case (Respond uid k accept)
  show ?thesis
  proof (cases "k = rid")
    case True
    with assms Respond show ?thesis
      by (simp add: swapResponseHandler_def)
  next
    case False
    with assms Respond show ?thesis
      by (auto simp: swapResponseHandler_def Let_def findByIdAndUpdate_requests
          save_event_requests save_request_status_lookup split: option.splits)
  qed
qed

lemma steps_keep_resolved:
  "map_of (requests d) rid = Some r \<Longrightarrow> req_status r \<noteq> PENDING \<Longrightarrow>
   map_of (requests (foldl step d xs)) rid = Some r"
  by (induction xs arbitrary: d) (simp_all add: step_keeps_resolved)

section \<open>Every step keeps the invariants\<close>

lemma pending_refs_cong: "requests d' = requests d \<Longrightarrow> pending_refs d' e = pending_refs d e"
  by (simp add: pending_refs_def)

lemma pending_refs_append:
  "requests d' = requests d @ [(k, r)] \<Longrightarrow>
   pending_refs d' e =
     pending_refs d e + (if req_status r = PENDING \<and> references r e then 1 else 0)"
  by (simp add: pending_refs_def)

lemma count_split_key:
  "distinct (map fst xs) \<Longrightarrow> map_of xs k = Some r \<Longrightarrow>
   length (filter (\<lambda>p. P (snd p)) xs) =
     length (filter (\<lambda>p. fst p \<noteq> k \<and> P (snd p)) xs) + (if P r then 1 else 0)"
proof (induction xs)
  case Nil
  then show ?case by simp
next
  case (Cons x xs)
  show ?case
  proof (cases "fst x = k")
    case True
    with Cons.prems have r: "snd x = r" by (cases x) simp
    from True Cons.prems have "k \<notin> fst ` set xs" by auto
    then have "filter (\<lambda>p. fst p \<noteq> k \<and> P (snd p)) xs = filter (\<lambda>p. P (snd p)) xs"
      by (intro filter_cong) auto
    with True r show ?thesis by simp
  next
    case False
    with Cons.prems have "map_of xs k = Some r" by (cases x) (simp split: if_splits)
    with Cons.prems Cons.IH have "length (filter (\<lambda>p. P (snd p)) xs) =
     length (filter (\<lambda>p. fst p \<noteq> k \<and> P (snd p)) xs) + (if P r then 1 else 0)" by simp
    with False show ?thesis by simp
  qed
qed

lemma count_set_status:
  "st \<noteq> PENDING \<Longrightarrow>
   length (filter (\<lambda>p. req_status (snd p) = PENDING \<and> references (snd p) e)
     (map (\<lambda>p. if fst p = k then (fst p, (snd p)\<lparr>req_status := st\<rparr>) else p) xs)) =
   length (filter (\<lambda>p. fst p \<noteq> k \<and> (req_status (snd p) = PENDING \<and> references (snd p) e)) xs)"
  by (induction xs) (auto simp: references_def)

lemma pending_refs_resolved:
  assumes "distinct (map fst (requests d))" and "map_of (requests d) k = Some r"
    and "st \<noteq> PENDING" and "requests d' = requests (save_request_status d k st)"
  shows "pending_refs d e =
           pending_refs d' e + (if req_status r = PENDING \<and> references r e then 1 else 0)"
proof -
  have "requests d' =
      map (\<lambda>p. if fst p = k then (fst p, (snd p)\<lparr>req_status := st\<rparr>) else p) (requests d)"
    using assms(4) by (simp add: save_request_status_def)
  then have "pending_refs d' e =
      length (filter (\<lambda>p. req_status (snd p) = PENDING \<and> references (snd p) e)
        (map (\<lambda>p. if fst p = k then (fst p, (snd p)\<lparr>req_status := st\<rparr>) else p) (requests d)))"
    by (simp only: pending_refs_def)
  also have "\<dots> =
      length (filter (\<lambda>p. fst p \<noteq> k \<and> (req_status (snd p) = PENDING \<and> references (snd p) e))
        (requests d))"
    by (rule count_set_status [OF assms(3)])
  finally have "pending_refs d' e =
      length (filter (\<lambda>p. fst p \<noteq> k \<and> (req_status (snd p) = PENDING \<and> references (snd p) e))
        (requests d))" .
  moreover have "pending_refs d e =
      length (filter (\<lambda>p. fst p \<noteq> k \<and> (req_status (snd p) = PENDING \<and> references (snd p) e))
        (requests d)) + (if req_status r = PENDING \<and> references r e then 1 else 0)"
    unfolding pending_refs_def
    by (rule count_split_key [OF assms(1,2),
          where P = "\<lambda>x. req_status x = PENDING \<and> references x e"])
  ultimately show ?thesis by simp
qed


lemma enum_SWAP_PENDING: "event_status_enum s = Some SWAP_PENDING \<Longrightarrow> s = ''SWAP_PENDING''"
  by (simp add: event_status_enum_def split: if_splits)

lemma nonempty_Some: "nonempty s = Some x \<Longrightarrow> s = Some x"
  by (cases s) (auto split: if_splits)

lemma str_or_SWAP_PENDING: "str_or s ''BUSY'' = ''SWAP_PENDING'' \<Longrightarrow> s = Some ''SWAP_PENDING''"
  by (cases s) (auto split: if_splits)

lemma events_post_Inl: "events_post {} d uid b = (Inl err, d') \<Longrightarrow> d' = d"
  by (auto simp: events_post_def Let_def split: option.splits if_splits)

lemma events_post_Inr:
  "events_post {} d uid b = (Inr (i, ev), d') \<Longrightarrow>
     d' = d\<lparr>events := (events d)(next_id d \<mapsto> ev), next_id := Suc (next_id d)\<rparr> \<and>
     (status ev = SWAP_PENDING \<longrightarrow> b_status b = Some ''SWAP_PENDING'')"
  by (auto simp: events_post_def Let_def split: option.splits if_splits
      dest!: enum_SWAP_PENDING str_or_SWAP_PENDING)

lemma events_post_shape:
  "snd (events_post {} d uid b) = d \<or>
   (\<exists>ev. snd (events_post {} d uid b) =
            d\<lparr>events := (events d)(next_id d \<mapsto> ev), next_id := Suc (next_id d)\<rparr> \<and>
         (status ev = SWAP_PENDING \<longrightarrow> b_status b = Some ''SWAP_PENDING''))"
proof (cases "events_post {} d uid b")
  case (Pair res d')
  show ?thesis
  proof (cases res)
    case (Inl err)
    with Pair show ?thesis by (simp add: events_post_Inl)
  next
    case (Inr p)
    with Pair have "events_post {} d uid b = (Inr (fst p, snd p), d')" by simp
    from events_post_Inr [OF this] Pair show ?thesis by auto
  qed
qed

lemma events_put_Inl: "events_put {} d uid eid b = (Inl err, d') \<Longrightarrow> d' = d"
  by (auto simp: events_put_def Let_def split: option.splits if_splits)

lemma events_put_Inr:
  "events_put {} d uid eid b = (Inr ev', d') \<Longrightarrow>
     \<exists>ev. events d eid = Some ev \<and> status ev \<noteq> SWAP_PENDING \<and>
       d' = d\<lparr>events := (events d)(eid \<mapsto> ev')\<rparr> \<and>
       (status ev' = SWAP_PENDING \<longrightarrow> b_status b = Some ''SWAP_PENDING'')"
  by (auto simp: events_put_def Let_def split: option.splits if_splits
      dest!: enum_SWAP_PENDING nonempty_Some)

lemma events_put_shape:
  "snd (events_put {} d uid eid b) = d \<or>
   (\<exists>ev ev'. events d eid = Some ev \<and> status ev \<noteq> SWAP_PENDING \<and>
      snd (events_put {} d uid eid b) = d\<lparr>events := (events d)(eid \<mapsto> ev')\<rparr> \<and>
      (status ev' = SWAP_PENDING \<longrightarrow> b_status b = Some ''SWAP_PENDING''))"
proof (cases "events_put {} d uid eid b")
  case (Pair res d')
  show ?thesis
  proof (cases res)
    case (Inl err)
    with Pair show ?thesis by (simp add: events_put_Inl)
  next
    case (Inr ev')
    with Pair have "events_put {} d uid eid b = (Inr ev', d')" by simp
    from events_put_Inr [OF this] Pair show ?thesis by auto
  qed
qed

lemma events_delete_shape:
  "snd (events_delete {} d uid eid) = d \<or>
   snd (events_delete {} d uid eid) = d\<lparr>events := (events d)(eid := None)\<rparr>"
  by (auto simp: events_delete_def split: option.splits)

lemma swap_requests_post_shape:
  "snd (swap_requests_post {} d uid now b) = d \<or>
   (\<exists>my their re ce r.
      events d my = Some re \<and> events d their = Some ce \<and>
      status re = SWAPPABLE \<and> status ce = SWAPPABLE \<and>
      req_status r = PENDING \<and> requester_event_id r = my \<and> recipient_event_id r = their \<and>
      requests (snd (swap_requests_post {} d uid now b)) = requests d @ [(next_id d, r)] \<and>
      next_id (snd (swap_requests_post {} d uid now b)) = Suc (next_id d) \<and>
      (\<forall>e. events (snd (swap_requests_post {} d uid now b)) e =
         (if e = my \<or> e = their then map_option (\<lambda>x. x\<lparr>status := SWAP_PENDING\<rparr>) (events d e)
          else events d e)))"
  by (auto simp: swap_requests_post_def Let_def findByIdAndUpdate_events
      findByIdAndUpdate_requests findByIdAndUpdate_next_id split: option.splits)

lemma swapResponseHandler_shape:
  "snd (swapResponseHandler {} d uid rid accept) = d \<or>
   (\<exists>r ea eb st.
      map_of (requests d) rid = Some r \<and> req_status r = PENDING \<and> st \<noteq> PENDING \<and>
      events d (requester_event_id r) = Some ea \<and> events d (recipient_event_id r) = Some eb \<and>
      requests (snd (swapResponseHandler {} d uid rid accept)) =
        requests (save_request_status d rid st) \<and>
      next_id (snd (swapResponseHandler {} d uid rid accept)) = next_id d \<and>
      (\<forall>e. e \<noteq> requester_event_id r \<longrightarrow> e \<noteq> recipient_event_id r \<longrightarrow>
         events (snd (swapResponseHandler {} d uid rid accept)) e = events d e) \<and>
      (\<exists>x. events (snd (swapResponseHandler {} d uid rid accept)) (requester_event_id r) = Some x \<and>
           status x \<noteq> SWAP_PENDING) \<and>
      (\<exists>y. events (snd (swapResponseHandler {} d uid rid accept)) (recipient_event_id r) = Some y \<and>
           status y \<noteq> SWAP_PENDING))"
proof (cases "\<exists>r ea eb. map_of (requests d) rid = Some r \<and> recipient_id r = uid \<and>
    req_status r = PENDING \<and> events d (requester_event_id r) = Some ea \<and>
    events d (recipient_event_id r) = Some eb")
  case False
  then have "snd (swapResponseHandler {} d uid rid accept) = d"
    by (auto simp: swapResponseHandler_def split: option.splits)
  then show ?thesis by simp
next
  case True
  then obtain r ea eb where h: "map_of (requests d) rid = Some r" "recipient_id r = uid"
    "req_status r = PENDING" "events d (requester_event_id r) = Some ea"
    "events d (recipient_event_id r) = Some eb" by blast
  have ev: "events (save_request_status d rid st) = events d" for st
    by (simp add: save_request_status_def)
  show ?thesis
  proof (cases accept)
    case True
    with h ev have "map_of (requests d) rid = Some r \<and> req_status r = PENDING \<and> ACCEPTED \<noteq> PENDING \<and>
      events d (requester_event_id r) = Some ea \<and> events d (recipient_event_id r) = Some eb \<and>
      requests (snd (swapResponseHandler {} d uid rid accept)) =
        requests (save_request_status d rid ACCEPTED) \<and>
      next_id (snd (swapResponseHandler {} d uid rid accept)) = next_id d \<and>
      (\<forall>e. e \<noteq> requester_event_id r \<longrightarrow> e \<noteq> recipient_event_id r \<longrightarrow>
         events (snd (swapResponseHandler {} d uid rid accept)) e = events d e) \<and>
      (\<exists>x. events (snd (swapResponseHandler {} d uid rid accept)) (requester_event_id r) = Some x \<and>
           status x \<noteq> SWAP_PENDING) \<and>
      (\<exists>y. events (snd (swapResponseHandler {} d uid rid accept)) (recipient_event_id r) = Some y \<and>
           status y \<noteq> SWAP_PENDING)"
      by (simp add: swapResponseHandler_def Let_def save_event_def save_request_status_def)
    then show ?thesis by blast
  next
    case False
    with h ev have "map_of (requests d) rid = Some r \<and> req_status r = PENDING \<and> REJECTED \<noteq> PENDING \<and>
      events d (requester_event_id r) = Some ea \<and> events d (recipient_event_id r) = Some eb \<and>
      requests (snd (swapResponseHandler {} d uid rid accept)) =
        requests (save_request_status d rid REJECTED) \<and>
      next_id (snd (swapResponseHandler {} d uid rid accept)) = next_id d \<and>
      (\<forall>e. e \<noteq> requester_event_id r \<longrightarrow> e \<noteq> recipient_event_id r \<longrightarrow>
         events (snd (swapResponseHandler {} d uid rid accept)) e = events d e) \<and>
      (\<exists>x. events (snd (swapResponseHandler {} d uid rid accept)) (requester_event_id r) = Some x \<and>
           status x \<noteq> SWAP_PENDING) \<and>
      (\<exists>y. events (snd (swapResponseHandler {} d uid rid accept)) (recipient_event_id r) = Some y \<and>
           status y \<noteq> SWAP_PENDING)"
      by (simp add: swapResponseHandler_def Let_def findByIdAndUpdate_events
          findByIdAndUpdate_requests findByIdAndUpdate_next_id save_request_status_def)
    then show ?thesis by blast
  qed
qed


lemma fresh_ids_unreferenced: "fresh_ids d \<Longrightarrow> pending_refs d (next_id d) = 0"
  by (auto simp: fresh_ids_def pending_refs_def references_def filter_empty_conv)

lemma save_request_status_keys:
  "map fst (requests (save_request_status d k st)) = map fst (requests d)"
  by (simp add: save_request_status_def comp_def if_distrib cong: if_cong)

lemma save_request_status_member:
  "p \<in> set (requests (save_request_status d k st)) \<Longrightarrow>
   \<exists>q \<in> set (requests d). fst q = fst p \<and>
     requester_event_id (snd q) = requester_event_id (snd p) \<and>
     recipient_event_id (snd q) = recipient_event_id (snd p)"
proof -
  assume "p \<in> set (requests (save_request_status d k st))"
  then have "p \<in> (\<lambda>q. if fst q = k then (fst q, (snd q)\<lparr>req_status := st\<rparr>) else q) `
      set (requests d)"
    by (simp add: save_request_status_def)
  then obtain q where p: "p = (if fst q = k then (fst q, (snd q)\<lparr>req_status := st\<rparr>) else q)"
    and q: "q \<in> set (requests d)"
    by (rule imageE)
  from p have "fst q = fst p \<and>
     requester_event_id (snd q) = requester_event_id (snd p) \<and>
     recipient_event_id (snd q) = recipient_event_id (snd p)"
    by (simp split: if_splits)
  with q show ?thesis by blast
qed

lemma fresh_ids_step:
  assumes "fresh_ids d"
  shows "fresh_ids (step d x)"
proof (cases x)
  case (CreateEvent uid b)
  with events_post_shape [of d uid b] assms show ?thesis
    by (fastforce simp: fresh_ids_def split: if_splits)
next
  case (UpdateEvent uid eid b)
  with events_put_shape [of d uid eid b] assms show ?thesis
    by (fastforce simp: fresh_ids_def split: if_splits)
next
  case (DeleteEvent uid eid)
  with events_delete_shape [of d uid eid] assms show ?thesis
    by (fastforce simp: fresh_ids_def split: if_splits)
next
  case (Propose uid now b)
  from swap_requests_post_shape [of d uid now b] show ?thesis
  proof
    assume "snd (swap_requests_post {} d uid now b) = d"
    with Propose assms show ?thesis by simp
  next
    assume "\<exists>my their re ce r.
      events d my = Some re \<and> events d their = Some ce \<and>
      status re = SWAPPABLE \<and> status ce = SWAPPABLE \<and>
      req_status r = PENDING \<and> requester_event_id r = my \<and> recipient_event_id r = their \<and>
      requests (snd (swap_requests_post {} d uid now b)) = requests d @ [(next_id d, r)] \<and>
      next_id (snd (swap_requests_post {} d uid now b)) = Suc (next_id d) \<and>
      (\<forall>e. events (snd (swap_requests_post {} d uid now b)) e =
         (if e = my \<or> e = their then map_option (\<lambda>x. x\<lparr>status := SWAP_PENDING\<rparr>) (events d e)
          else events d e))"
    then obtain my their re ce r where h:
      "events d my = Some re" "events d their = Some ce"
      "requester_event_id r = my" "recipient_event_id r = their"
      "requests (step d x) = requests d @ [(next_id d, r)]"
      "next_id (step d x) = Suc (next_id d)"
      "\<And>e. events (step d x) e =
         (if e = my \<or> e = their then map_option (\<lambda>x. x\<lparr>status := SWAP_PENDING\<rparr>) (events d e)
          else events d e)"
      using Propose by auto
    from assms h(1,2) have below: "my < next_id d" "their < next_id d"
      by (auto simp: fresh_ids_def)
    from assms have "next_id d \<notin> fst ` set (requests d)" by (auto simp: fresh_ids_def)
    with assms h(5) have "distinct (map fst (requests (step d x)))" by (simp add: fresh_ids_def)
    moreover from assms h(3-6) below
    have "\<forall>p \<in> set (requests (step d x)). fst p < next_id (step d x) \<and>
        requester_event_id (snd p) < next_id (step d x) \<and>
        recipient_event_id (snd p) < next_id (step d x)"
      by (auto simp: fresh_ids_def less_Suc_eq)
    moreover from assms h(6,7)
    have "\<forall>e ev. events (step d x) e = Some ev \<longrightarrow> e < next_id (step d x)"
      by (auto simp: fresh_ids_def less_Suc_eq split: if_splits)
    ultimately show ?thesis by (simp add: fresh_ids_def)
  qed
next
  case (Respond uid rid accept)
  from swapResponseHandler_shape [of d uid rid accept] show ?thesis
  proof
    assume "snd (swapResponseHandler {} d uid rid accept) = d"
    with Respond assms show ?thesis by simp
  next
    assume "\<exists>r ea eb st.
      map_of (requests d) rid = Some r \<and> req_status r = PENDING \<and> st \<noteq> PENDING \<and>
      events d (requester_event_id r) = Some ea \<and> events d (recipient_event_id r) = Some eb \<and>
      requests (snd (swapResponseHandler {} d uid rid accept)) =
        requests (save_request_status d rid st) \<and>
      next_id (snd (swapResponseHandler {} d uid rid accept)) = next_id d \<and>
      (\<forall>e. e \<noteq> requester_event_id r \<longrightarrow> e \<noteq> recipient_event_id r \<longrightarrow>
         events (snd (swapResponseHandler {} d uid rid accept)) e = events d e) \<and>
      (\<exists>x. events (snd (swapResponseHandler {} d uid rid accept)) (requester_event_id r) = Some x \<and>
           status x \<noteq> SWAP_PENDING) \<and>
      (\<exists>y. events (snd (swapResponseHandler {} d uid rid accept)) (recipient_event_id r) = Some y \<and>
           status y \<noteq> SWAP_PENDING)"
    then obtain r :: swap_request and ea eb st where h:
      "events d (requester_event_id r) = Some ea" "events d (recipient_event_id r) = Some eb"
      "requests (step d x) = requests (save_request_status d rid st)"
      "next_id (step d x) = next_id d"
      "\<And>e. e \<noteq> requester_event_id r \<Longrightarrow> e \<noteq> recipient_event_id r \<Longrightarrow>
         events (step d x) e = events d e"
      using Respond by auto
    from assms h(3) have "distinct (map fst (requests (step d x)))"
      by (simp add: fresh_ids_def save_request_status_keys)
    moreover have "\<forall>p \<in> set (requests (step d x)). fst p < next_id (step d x) \<and>
        requester_event_id (snd p) < next_id (step d x) \<and>
        recipient_event_id (snd p) < next_id (step d x)"
    proof
      fix p assume "p \<in> set (requests (step d x))"
      with h(3) have "p \<in> set (requests (save_request_status d rid st))" by simp
      from save_request_status_member [OF this] assms h(4)
      show "fst p < next_id (step d x) \<and>
        requester_event_id (snd p) < next_id (step d x) \<and>
        recipient_event_id (snd p) < next_id (step d x)"
        by (auto simp: fresh_ids_def)
    qed
    moreover have "\<forall>e ev. events (step d x) e = Some ev \<longrightarrow> e < next_id (step d x)"
    proof (intro allI impI)
      fix e ev assume "events (step d x) e = Some ev"
      with h(1,2,4,5) assms show "e < next_id (step d x)"
        by (cases "e = requester_event_id r \<or> e = recipient_event_id r") (auto simp: fresh_ids_def)
    qed
    ultimately show ?thesis by (simp add: fresh_ids_def)
  qed
qed


lemma locked_free:
  assumes "locked_inv d" and "events d e = Some ev" and "status ev \<noteq> SWAP_PENDING"
  shows "pending_refs d e = 0"
proof (rule ccontr)
  assume "pending_refs d e \<noteq> 0"
  then have "0 < pending_refs d e" by simp
  with assms(1,2) have "status ev = SWAP_PENDING" unfolding locked_inv_def by blast
  with assms(3) show False by simp
qed

lemma locked_one:
  assumes "locked_inv d" and "events d e = Some ev"
  shows "pending_refs d e \<le> 1"
proof (cases "0 < pending_refs d e")
  case True
  with assms have "pending_refs d e = 1" unfolding locked_inv_def by blast
  then show ?thesis by simp
next
  case False
  then show ?thesis by simp
qed

lemma locked_step:
  assumes fresh: "fresh_ids d" and inv: "locked_inv d"
  shows "locked_inv (step d x)"
proof (cases x)
  case (CreateEvent uid b)
  from events_post_shape [of d uid b] show ?thesis
  proof
    assume "snd (events_post {} d uid b) = d"
    with CreateEvent inv show ?thesis by simp
  next
    assume "\<exists>ev. snd (events_post {} d uid b) =
            d\<lparr>events := (events d)(next_id d \<mapsto> ev), next_id := Suc (next_id d)\<rparr> \<and>
         (status ev = SWAP_PENDING \<longrightarrow> b_status b = Some ''SWAP_PENDING'')"
    then obtain ev where
      "step d x = d\<lparr>events := (events d)(next_id d \<mapsto> ev), next_id := Suc (next_id d)\<rparr>"
      using CreateEvent by auto
    then have ev: "\<And>e. events (step d x) e = (if e = next_id d then Some ev else events d e)"
      and rq: "\<And>e. pending_refs (step d x) e = pending_refs d e"
      by (simp_all add: pending_refs_def)
    show ?thesis
      unfolding locked_inv_def
    proof (intro allI impI)
      fix e ev'
      assume a: "events (step d x) e = Some ev'" "0 < pending_refs (step d x) e"
      with fresh_ids_unreferenced [OF fresh] rq have "e \<noteq> next_id d" by auto
      with a ev rq inv show "status ev' = SWAP_PENDING \<and> pending_refs (step d x) e = 1"
        by (simp add: locked_inv_def)
    qed
  qed
next
  case (UpdateEvent uid eid b)
  from events_put_shape [of d uid eid b] show ?thesis
  proof
    assume "snd (events_put {} d uid eid b) = d"
    with UpdateEvent inv show ?thesis by simp
  next
    assume "\<exists>ev ev'. events d eid = Some ev \<and> status ev \<noteq> SWAP_PENDING \<and>
      snd (events_put {} d uid eid b) = d\<lparr>events := (events d)(eid \<mapsto> ev')\<rparr> \<and>
      (status ev' = SWAP_PENDING \<longrightarrow> b_status b = Some ''SWAP_PENDING'')"
    then obtain ev ev' where old: "events d eid = Some ev" "status ev \<noteq> SWAP_PENDING"
      and "step d x = d\<lparr>events := (events d)(eid \<mapsto> ev')\<rparr>"
      using UpdateEvent by auto
    then have ev: "\<And>e. events (step d x) e = (if e = eid then Some ev' else events d e)"
      and rq: "\<And>e. pending_refs (step d x) e = pending_refs d e"
      by (simp_all add: pending_refs_def)
    from old have free: "pending_refs d eid = 0" by (simp add: locked_free [OF inv])
    show ?thesis
      unfolding locked_inv_def
    proof (intro allI impI)
      fix e ev''
      assume a: "events (step d x) e = Some ev''" "0 < pending_refs (step d x) e"
      with free rq have "e \<noteq> eid" by auto
      with a ev rq inv show "status ev'' = SWAP_PENDING \<and> pending_refs (step d x) e = 1"
        by (simp add: locked_inv_def)
    qed
  qed
next
  case (DeleteEvent uid eid)
  from events_delete_shape [of d uid eid] show ?thesis
  proof
    assume "snd (events_delete {} d uid eid) = d"
    with DeleteEvent inv show ?thesis by simp
  next
    assume "snd (events_delete {} d uid eid) = d\<lparr>events := (events d)(eid := None)\<rparr>"
    with DeleteEvent have "step d x = d\<lparr>events := (events d)(eid := None)\<rparr>" by simp
    then have ev: "\<And>e. events (step d x) e = (if e = eid then None else events d e)"
      and rq: "\<And>e. pending_refs (step d x) e = pending_refs d e"
      by (simp_all add: pending_refs_def)
    show ?thesis
      unfolding locked_inv_def
    proof (intro allI impI)
      fix e ev'
      assume a: "events (step d x) e = Some ev'" "0 < pending_refs (step d x) e"
      with ev have "e \<noteq> eid" by auto
      with a ev rq inv show "status ev' = SWAP_PENDING \<and> pending_refs (step d x) e = 1"
        by (simp add: locked_inv_def)
    qed
  qed
next
  case (Propose uid now b)
  from swap_requests_post_shape [of d uid now b] show ?thesis
  proof
    assume "snd (swap_requests_post {} d uid now b) = d"
    with Propose inv show ?thesis by simp
  next
    assume "\<exists>my their re ce r.
      events d my = Some re \<and> events d their = Some ce \<and>
      status re = SWAPPABLE \<and> status ce = SWAPPABLE \<and>
      req_status r = PENDING \<and> requester_event_id r = my \<and> recipient_event_id r = their \<and>
      requests (snd (swap_requests_post {} d uid now b)) = requests d @ [(next_id d, r)] \<and>
      next_id (snd (swap_requests_post {} d uid now b)) = Suc (next_id d) \<and>
      (\<forall>e. events (snd (swap_requests_post {} d uid now b)) e =
         (if e = my \<or> e = their then map_option (\<lambda>x. x\<lparr>status := SWAP_PENDING\<rparr>) (events d e)
          else events d e))"
    then obtain my their re ce r where h:
      "events d my = Some re" "events d their = Some ce"
      "status re = SWAPPABLE" "status ce = SWAPPABLE" "req_status r = PENDING"
      "requester_event_id r = my" "recipient_event_id r = their"
      "requests (step d x) = requests d @ [(next_id d, r)]"
      "\<And>e. events (step d x) e =
         (if e = my \<or> e = their then map_option (\<lambda>x. x\<lparr>status := SWAP_PENDING\<rparr>) (events d e)
          else events d e)"
      using Propose by auto
    from h(5-7) have rq: "\<And>e. pending_refs (step d x) e =
        pending_refs d e + (if e = my \<or> e = their then 1 else 0)"
      by (auto simp: pending_refs_append [OF h(8)] references_def)
    from h(1-4) have free: "pending_refs d my = 0" "pending_refs d their = 0"
      by (simp_all add: locked_free [OF inv])
    show ?thesis
      unfolding locked_inv_def
    proof (intro allI impI)
      fix e ev'
      assume a: "events (step d x) e = Some ev'" "0 < pending_refs (step d x) e"
      show "status ev' = SWAP_PENDING \<and> pending_refs (step d x) e = 1"
      proof (cases "e = my \<or> e = their")
        case True
        with a h(9) free rq show ?thesis by auto
      next
        case False
        with a h(9) rq inv show ?thesis by (simp add: locked_inv_def)
      qed
    qed
  qed
next
  case (Respond uid rid accept)
  from swapResponseHandler_shape [of d uid rid accept] show ?thesis
  proof
    assume "snd (swapResponseHandler {} d uid rid accept) = d"
    with Respond inv show ?thesis by simp
  next
    assume "\<exists>r ea eb st.
      map_of (requests d) rid = Some r \<and> req_status r = PENDING \<and> st \<noteq> PENDING \<and>
      events d (requester_event_id r) = Some ea \<and> events d (recipient_event_id r) = Some eb \<and>
      requests (snd (swapResponseHandler {} d uid rid accept)) =
        requests (save_request_status d rid st) \<and>
      next_id (snd (swapResponseHandler {} d uid rid accept)) = next_id d \<and>
      (\<forall>e. e \<noteq> requester_event_id r \<longrightarrow> e \<noteq> recipient_event_id r \<longrightarrow>
         events (snd (swapResponseHandler {} d uid rid accept)) e = events d e) \<and>
      (\<exists>x. events (snd (swapResponseHandler {} d uid rid accept)) (requester_event_id r) = Some x \<and>
           status x \<noteq> SWAP_PENDING) \<and>
      (\<exists>y. events (snd (swapResponseHandler {} d uid rid accept)) (recipient_event_id r) = Some y \<and>
           status y \<noteq> SWAP_PENDING)"
    then obtain r ea eb st where h:
      "map_of (requests d) rid = Some r" "req_status r = PENDING" "st \<noteq> PENDING"
      "events d (requester_event_id r) = Some ea" "events d (recipient_event_id r) = Some eb"
      "requests (step d x) = requests (save_request_status d rid st)"
      "\<And>e. e \<noteq> requester_event_id r \<Longrightarrow> e \<noteq> recipient_event_id r \<Longrightarrow>
         events (step d x) e = events d e"
      using Respond by auto
    from fresh have dist: "distinct (map fst (requests d))" by (simp add: fresh_ids_def)
    have rq: "\<And>e. pending_refs d e =
        pending_refs (step d x) e + (if references r e then 1 else 0)"
      using pending_refs_resolved [OF dist h(1) h(3) h(6)] h(2) by simp
    show ?thesis
      unfolding locked_inv_def
    proof (intro allI impI)
      fix e ev'
      assume a: "events (step d x) e = Some ev'" "0 < pending_refs (step d x) e"
      show "status ev' = SWAP_PENDING \<and> pending_refs (step d x) e = 1"
      proof (cases "references r e")
        case True
        then obtain ev where "events d e = Some ev" using h(4,5) by (auto simp: references_def)
        from locked_one [OF inv this] have "pending_refs d e \<le> 1" .
        moreover from True a rq [of e] have "1 < pending_refs d e" by simp
        ultimately have False by simp
        then show ?thesis ..
      next
        case False
        then have "e \<noteq> requester_event_id r" "e \<noteq> recipient_event_id r"
          by (auto simp: references_def)
        with a h(7) rq [of e] False inv show ?thesis by (simp add: locked_inv_def)
      qed
    qed
  qed
qed

lemma inv_init: "fresh_ids init_db" "locked_inv init_db"
  by (simp_all add: fresh_ids_def locked_inv_def init_db_def)

lemma run_fresh_locked: "fresh_ids (run ops) \<and> locked_inv (run ops)"
proof (induction ops rule: rev_induct)
  case Nil
  show ?case by (simp add: run_def inv_init)
next
  case (snoc x xs)
  then show ?case by (simp add: run_snoc fresh_ids_step locked_step)
qed

subsection \<open>The two phases of propose, and events locked by hand\<close>

lemma propose_split:
  "swap_requests_post F d uid now b =
     (case propose_reads d uid b of
        Inl err \<Rightarrow> (Inl err, d)
      | Inr c \<Rightarrow> propose_writes F d uid now c)"
  by (simp add: swap_requests_post_def propose_reads_def propose_writes_def Let_def
      split: option.splits)

lemma hand_locked_append:
  "hand_locked d (xs @ ys) = hand_locked d xs \<union> hand_locked (foldl step d xs) ys"
  by (induction xs arbitrary: d) auto

lemma events_post_cases:
  "(\<exists>err. events_post {} d uid b = (Inl err, d)) \<or>
   (\<exists>ev. events_post {} d uid b =
      (Inr (next_id d, ev),
       d\<lparr>events := (events d)(next_id d \<mapsto> ev), next_id := Suc (next_id d)\<rparr>))"
  by (auto simp: events_post_def Let_def split: option.splits)

lemma events_put_cases:
  "(\<exists>err. events_put {} d uid eid b = (Inl err, d)) \<or>
   (\<exists>ev ev'. events d eid = Some ev \<and> status ev \<noteq> SWAP_PENDING \<and>
      events_put {} d uid eid b = (Inr ev', d\<lparr>events := (events d)(eid \<mapsto> ev')\<rparr>))"
  by (auto simp: events_put_def Let_def split: option.splits)


lemma hand_invI:
  assumes "\<And>e. e \<in> L \<Longrightarrow> e < next_id d"
    and "\<And>e ev. events d e = Some ev \<Longrightarrow> e \<in> L \<Longrightarrow>
           status ev = SWAP_PENDING \<and> pending_refs d e = 0"
    and "\<And>e ev. events d e = Some ev \<Longrightarrow> e \<notin> L \<Longrightarrow> status ev = SWAP_PENDING \<Longrightarrow>
           0 < pending_refs d e"
  shows "hand_inv d L"
  using assms unfolding hand_inv_def by (simp add: Ball_def)

lemma hand_below: "hand_inv d L \<Longrightarrow> e \<in> L \<Longrightarrow> e < next_id d"
  unfolding hand_inv_def by blast

lemma hand_stuck:
  "hand_inv d L \<Longrightarrow> events d e = Some ev \<Longrightarrow> e \<in> L \<Longrightarrow>
   status ev = SWAP_PENDING \<and> pending_refs d e = 0"
  unfolding hand_inv_def by (metis (full_types))

lemma hand_live:
  "hand_inv d L \<Longrightarrow> events d e = Some ev \<Longrightarrow> e \<notin> L \<Longrightarrow> status ev = SWAP_PENDING \<Longrightarrow>
   0 < pending_refs d e"
  unfolding hand_inv_def by (metis (full_types))

lemma hand_step:
  assumes fresh: "fresh_ids d" and inv: "locked_inv d" and hand: "hand_inv d L"
  shows "hand_inv (step d x) (L \<union> locks_by_hand d x)"
proof (cases x)
  case (CreateEvent uid b)
  from events_post_cases [of d uid b] show ?thesis
  proof (elim disjE exE)
    fix err assume "events_post {} d uid b = (Inl err, d)"
    with CreateEvent hand show ?thesis by simp
  next
    fix ev
    assume res: "events_post {} d uid b =
      (Inr (next_id d, ev),
       d\<lparr>events := (events d)(next_id d \<mapsto> ev), next_id := Suc (next_id d)\<rparr>)"
    with CreateEvent have
      ev: "\<And>e. events (step d x) e = (if e = next_id d then Some ev else events d e)"
      and nx: "next_id (step d x) = Suc (next_id d)"
      and rq: "\<And>e. pending_refs (step d x) e = pending_refs d e"
      and lk: "locks_by_hand d x = (if status ev = SWAP_PENDING then {next_id d} else {})"
      by (simp_all add: pending_refs_def)
    from hand_below [OF hand] have new: "next_id d \<notin> L" by blast
    show ?thesis
    proof (rule hand_invI)
      fix e assume "e \<in> L \<union> locks_by_hand d x"
      with lk hand_below [OF hand] nx show "e < next_id (step d x)"
        by (auto simp: less_Suc_eq split: if_splits)
    next
      fix e ev0
      assume a: "events (step d x) e = Some ev0" "e \<in> L \<union> locks_by_hand d x"
      show "status ev0 = SWAP_PENDING \<and> pending_refs (step d x) e = 0"
      proof (cases "e = next_id d")
        case True
        with a new lk ev rq fresh_ids_unreferenced [OF fresh] show ?thesis
          by (auto split: if_splits)
      next
        case False
        with a lk have "e \<in> L" by (auto split: if_splits)
        moreover from False a ev have "events d e = Some ev0" by simp
        ultimately show ?thesis using hand_stuck [OF hand] rq by simp
      qed
    next
      fix e ev0
      assume a: "events (step d x) e = Some ev0" "e \<notin> L \<union> locks_by_hand d x"
        "status ev0 = SWAP_PENDING"
      show "0 < pending_refs (step d x) e"
      proof (cases "e = next_id d")
        case True
        with a lk ev show ?thesis by (auto split: if_splits)
      next
        case False
        with a ev have "events d e = Some ev0" "e \<notin> L" by simp_all
        with a(3) hand_live [OF hand] rq show ?thesis by simp
      qed
    qed
  qed
next
  case (UpdateEvent uid eid b)
  from events_put_cases [of d uid eid b] show ?thesis
  proof (elim disjE exE conjE)
    fix err assume "events_put {} d uid eid b = (Inl err, d)"
    with UpdateEvent hand show ?thesis by simp
  next
    fix ev ev'
    assume old: "events d eid = Some ev" "status ev \<noteq> SWAP_PENDING"
      and res: "events_put {} d uid eid b = (Inr ev', d\<lparr>events := (events d)(eid \<mapsto> ev')\<rparr>)"
    with UpdateEvent have
      ev: "\<And>e. events (step d x) e = (if e = eid then Some ev' else events d e)"
      and nx: "next_id (step d x) = next_id d"
      and rq: "\<And>e. pending_refs (step d x) e = pending_refs d e"
      and lk: "locks_by_hand d x = (if status ev' = SWAP_PENDING then {eid} else {})"
      by (simp_all add: pending_refs_def)
    from old hand_stuck [OF hand] have new: "eid \<notin> L" by blast
    from old have free: "pending_refs d eid = 0" by (simp add: locked_free [OF inv])
    from fresh old have below: "eid < next_id d" by (auto simp: fresh_ids_def)
    show ?thesis
    proof (rule hand_invI)
      fix e assume "e \<in> L \<union> locks_by_hand d x"
      with lk hand_below [OF hand] nx below show "e < next_id (step d x)"
        by (auto split: if_splits)
    next
      fix e ev0
      assume a: "events (step d x) e = Some ev0" "e \<in> L \<union> locks_by_hand d x"
      show "status ev0 = SWAP_PENDING \<and> pending_refs (step d x) e = 0"
      proof (cases "e = eid")
        case True
        with a new lk ev rq free show ?thesis by (auto split: if_splits)
      next
        case False
        with a lk have "e \<in> L" by (auto split: if_splits)
        moreover from False a ev have "events d e = Some ev0" by simp
        ultimately show ?thesis using hand_stuck [OF hand] rq by simp
      qed
    next
      fix e ev0
      assume a: "events (step d x) e = Some ev0" "e \<notin> L \<union> locks_by_hand d x"
        "status ev0 = SWAP_PENDING"
      show "0 < pending_refs (step d x) e"
      proof (cases "e = eid")
        case True
        with a lk ev show ?thesis by (auto split: if_splits)
      next
        case False
        with a ev have "events d e = Some ev0" "e \<notin> L" by simp_all
        with a(3) hand_live [OF hand] rq show ?thesis by simp
      qed
    qed
  qed
next
  case (DeleteEvent uid eid)
  from events_delete_shape [of d uid eid] show ?thesis
  proof
    assume "snd (events_delete {} d uid eid) = d"
    with DeleteEvent hand show ?thesis by simp
  next
    assume "snd (events_delete {} d uid eid) = d\<lparr>events := (events d)(eid := None)\<rparr>"
    with DeleteEvent have
      ev: "\<And>e. events (step d x) e = (if e = eid then None else events d e)"
      and nx: "next_id (step d x) = next_id d"
      and rq: "\<And>e. pending_refs (step d x) e = pending_refs d e"
      and lk: "locks_by_hand d x = {}"
      by (simp_all add: pending_refs_def)
    show ?thesis
    proof (rule hand_invI)
      fix e assume "e \<in> L \<union> locks_by_hand d x"
      with lk hand_below [OF hand] nx show "e < next_id (step d x)" by simp
    next
      fix e ev0
      assume a: "events (step d x) e = Some ev0" "e \<in> L \<union> locks_by_hand d x"
      with ev lk have "events d e = Some ev0" "e \<in> L" by (simp_all split: if_splits)
      with hand_stuck [OF hand] rq
      show "status ev0 = SWAP_PENDING \<and> pending_refs (step d x) e = 0" by simp
    next
      fix e ev0
      assume a: "events (step d x) e = Some ev0" "e \<notin> L \<union> locks_by_hand d x"
        "status ev0 = SWAP_PENDING"
      with ev lk have "events d e = Some ev0" "e \<notin> L" by (simp_all split: if_splits)
      with a(3) hand_live [OF hand] rq show "0 < pending_refs (step d x) e" by simp
    qed
  qed
next
  case (Propose uid now b)
  then have lk: "locks_by_hand d x = {}" by simp
  from swap_requests_post_shape [of d uid now b] show ?thesis
  proof (elim disjE exE conjE)
    assume "snd (swap_requests_post {} d uid now b) = d"
    with Propose hand show ?thesis by simp
  next
    fix my their re ce r
    assume "events d my = Some re" "events d their = Some ce"
      "status re = SWAPPABLE" "status ce = SWAPPABLE" "req_status r = PENDING"
      "requester_event_id r = my" "recipient_event_id r = their"
      "requests (snd (swap_requests_post {} d uid now b)) = requests d @ [(next_id d, r)]"
      "next_id (snd (swap_requests_post {} d uid now b)) = Suc (next_id d)"
      "\<forall>e. events (snd (swap_requests_post {} d uid now b)) e =
         (if e = my \<or> e = their then map_option (\<lambda>x. x\<lparr>status := SWAP_PENDING\<rparr>) (events d e)
          else events d e)"
    with Propose have h:
      "events d my = Some re" "events d their = Some ce"
      "status re = SWAPPABLE" "status ce = SWAPPABLE" "req_status r = PENDING"
      "requester_event_id r = my" "recipient_event_id r = their"
      "requests (step d x) = requests d @ [(next_id d, r)]"
      "next_id (step d x) = Suc (next_id d)"
      "\<And>e. events (step d x) e =
         (if e = my \<or> e = their then map_option (\<lambda>x. x\<lparr>status := SWAP_PENDING\<rparr>) (events d e)
          else events d e)"
      by simp_all
    from h(5-7) have rq: "\<And>e. pending_refs (step d x) e =
        pending_refs d e + (if e = my \<or> e = their then 1 else 0)"
      by (auto simp: pending_refs_append [OF h(8)] references_def)
    from h(1-4) hand_stuck [OF hand] have out: "my \<notin> L" "their \<notin> L" by auto
    show ?thesis
    proof (rule hand_invI)
      fix e assume "e \<in> L \<union> locks_by_hand d x"
      with lk hand_below [OF hand, of e] h(9) show "e < next_id (step d x)" by simp
    next
      fix e ev0
      assume a: "events (step d x) e = Some ev0" "e \<in> L \<union> locks_by_hand d x"
      with lk out have "e \<in> L" "e \<noteq> my" "e \<noteq> their" by auto
      with a h(10) hand_stuck [OF hand] rq
      show "status ev0 = SWAP_PENDING \<and> pending_refs (step d x) e = 0" by simp
    next
      fix e ev0
      assume a: "events (step d x) e = Some ev0" "e \<notin> L \<union> locks_by_hand d x"
        "status ev0 = SWAP_PENDING"
      show "0 < pending_refs (step d x) e"
      proof (cases "e = my \<or> e = their")
        case True
        with rq show ?thesis by auto
      next
        case False
        with a h(10) have "events d e = Some ev0" "e \<notin> L" by simp_all
        with a(3) hand_live [OF hand] rq False show ?thesis by simp
      qed
    qed
  qed
next
  case (Respond uid rid accept)
  then have lk: "locks_by_hand d x = {}" by simp
  from swapResponseHandler_shape [of d uid rid accept] show ?thesis
  proof (elim disjE exE conjE)
    assume "snd (swapResponseHandler {} d uid rid accept) = d"
    with Respond hand show ?thesis by simp
  next
    fix r ea eb st xa xb
    assume "map_of (requests d) rid = Some r" "req_status r = PENDING" "st \<noteq> PENDING"
      "events d (requester_event_id r) = Some ea" "events d (recipient_event_id r) = Some eb"
      "requests (snd (swapResponseHandler {} d uid rid accept)) =
        requests (save_request_status d rid st)"
      "next_id (snd (swapResponseHandler {} d uid rid accept)) = next_id d"
      "\<forall>e. e \<noteq> requester_event_id r \<longrightarrow> e \<noteq> recipient_event_id r \<longrightarrow>
         events (snd (swapResponseHandler {} d uid rid accept)) e = events d e"
      "events (snd (swapResponseHandler {} d uid rid accept)) (requester_event_id r) = Some xa"
      "status xa \<noteq> SWAP_PENDING"
      "events (snd (swapResponseHandler {} d uid rid accept)) (recipient_event_id r) = Some xb"
      "status xb \<noteq> SWAP_PENDING"
    with Respond have h:
      "map_of (requests d) rid = Some r" "req_status r = PENDING" "st \<noteq> PENDING"
      "events d (requester_event_id r) = Some ea" "events d (recipient_event_id r) = Some eb"
      "requests (step d x) = requests (save_request_status d rid st)"
      "next_id (step d x) = next_id d"
      "\<And>e. e \<noteq> requester_event_id r \<Longrightarrow> e \<noteq> recipient_event_id r \<Longrightarrow>
         events (step d x) e = events d e"
      "events (step d x) (requester_event_id r) = Some xa" "status xa \<noteq> SWAP_PENDING"
      "events (step d x) (recipient_event_id r) = Some xb" "status xb \<noteq> SWAP_PENDING"
      by simp_all
    from fresh have dist: "distinct (map fst (requests d))" by (simp add: fresh_ids_def)
    have rq: "\<And>e. pending_refs d e =
        pending_refs (step d x) e + (if references r e then 1 else 0)"
      using pending_refs_resolved [OF dist h(1) h(3) h(6)] h(2) by simp
    have out: "requester_event_id r \<notin> L" "recipient_event_id r \<notin> L"
    proof -
      from rq [of "requester_event_id r"] have "0 < pending_refs d (requester_event_id r)"
        by (simp add: references_def)
      with h(4) hand_stuck [OF hand] show "requester_event_id r \<notin> L" by fastforce
      from rq [of "recipient_event_id r"] have "0 < pending_refs d (recipient_event_id r)"
        by (simp add: references_def)
      with h(5) hand_stuck [OF hand] show "recipient_event_id r \<notin> L" by fastforce
    qed
    show ?thesis
    proof (rule hand_invI)
      fix e assume "e \<in> L \<union> locks_by_hand d x"
      with lk hand_below [OF hand, of e] h(7) show "e < next_id (step d x)" by simp
    next
      fix e ev0
      assume a: "events (step d x) e = Some ev0" "e \<in> L \<union> locks_by_hand d x"
      with lk out have e: "e \<in> L" "e \<noteq> requester_event_id r" "e \<noteq> recipient_event_id r"
        by auto
      then have "\<not> references r e" by (simp add: references_def)
      with a e h(8) hand_stuck [OF hand] rq [of e]
      show "status ev0 = SWAP_PENDING \<and> pending_refs (step d x) e = 0" by simp
    next
      fix e ev0
      assume a: "events (step d x) e = Some ev0" "e \<notin> L \<union> locks_by_hand d x"
        "status ev0 = SWAP_PENDING"
      with h(9-12) have ne: "e \<noteq> requester_event_id r" "e \<noteq> recipient_event_id r" by auto
      then have unref: "\<not> references r e" by (simp add: references_def)
      from a ne h(8) have "events d e = Some ev0" "e \<notin> L" by simp_all
      with a(3) hand_live [OF hand] have "0 < pending_refs d e" by simp
      with rq [of e] unref show "0 < pending_refs (step d x) e" by simp
    qed
  qed
qed

lemma run_hand: "hand_inv (run ops) (hand_locked init_db ops)"
proof (induction ops rule: rev_induct)
  case Nil
  show ?case by (simp add: run_def init_db_def hand_inv_def)
next
  case (snoc x xs)
  from run_fresh_locked [of xs] have "fresh_ids (run xs)" "locked_inv (run xs)" by simp_all
  from hand_step [OF this snoc.IH, of x] show ?case
    by (simp add: run_snoc hand_locked_append run_def)
qed

lemma hand_locked_proposed_and_locked: "hand_locked init_db proposed_and_locked = {3}"
proof -
  have "hand_locked init_db proposed = {}"
    by (simp add: proposed_def created_def init_db_def events_post_def ev_body_def
        valid_title_def trim_sample event_status_enum_def Let_def)
  moreover have "hand_locked (run proposed)
      [CreateEvent 9 (ev_body ''a'' 5 6 (Some ''SWAP_PENDING''))] = {3}"
    by (simp add: run_proposed proposed_db_def events_post_def ev_body_def valid_title_def
        trim_sample event_status_enum_def Let_def)
  ultimately show ?thesis
    by (simp add: proposed_and_locked_def hand_locked_append run_def)
qed

subsection \<open>Facts for the round trip and the listings\<close>

lemma status_same: "status e = s \<Longrightarrow> e\<lparr>status := s\<rparr> = e"
  by (cases e) auto

lemma fresh_ids_new_key: "fresh_ids d \<Longrightarrow> map_of (requests d) (next_id d) = None"
  by (auto simp: fresh_ids_def map_of_eq_None_iff)

lemma swap_requests_post_ok:
  assumes "or_else (b_mySlotId body) (b_requester_event_id body) = Some a"
    and "or_else (b_theirSlotId body) (b_recipient_event_id body) = Some b"
    and "events d a = Some ea" and "events d b = Some eb"
    and "status ea = SWAPPABLE" and "status eb = SWAPPABLE" and "a \<noteq> b"
  shows "swap_requests_post {} d (user_id ea) now body =
     (Inr (next_id d,
           \<lparr>requester_id = user_id ea, requester_event_id = a, recipient_id = user_id eb,
            recipient_event_id = b, req_status = PENDING, createdAt = now\<rparr>,
           Some (ea\<lparr>status := SWAP_PENDING\<rparr>), Some (eb\<lparr>status := SWAP_PENDING\<rparr>)),
      d\<lparr>events := (events d)(a \<mapsto> ea\<lparr>status := SWAP_PENDING\<rparr>, b \<mapsto> eb\<lparr>status := SWAP_PENDING\<rparr>),
        requests := requests d @
          [(next_id d, \<lparr>requester_id = user_id ea, requester_event_id = a,
             recipient_id = user_id eb, recipient_event_id = b,
             req_status = PENDING, createdAt = now\<rparr>)],
        next_id := Suc (next_id d)\<rparr>)"
  using assms
  by (simp add: swap_requests_post_def Let_def findByIdAndUpdate_def populate_def)

text \<open>
  Both list routes filter on the user and sort on \<open>created_at\<close>, which is null in
  every document: the result is the user's requests in store order, and the store is
  returned as it was.
\<close>

lemma insort_desc_null:
  assumes "\<forall>x. k x = None"
  shows "insort_desc k x ys = x # ys"
  using assms by (cases ys) simp_all

lemma sort_desc_null:
  assumes "\<forall>x. k x = None"
  shows "sort_desc k xs = xs"
  unfolding sort_desc_def
  by (induction xs) (simp_all add: insort_desc_null [OF assms])

lemma listing_store_order:
  "swap_requests_incoming d uid =
     (map (populate d) (filter (\<lambda>p. recipient_id (snd p) = uid) (requests d)), d)"
  "swap_requests_outgoing d uid =
     (map (populate d) (filter (\<lambda>p. requester_id (snd p) = uid) (requests d)), d)"
  by (simp_all add: swap_requests_incoming_def swap_requests_outgoing_def sort_desc_null
      created_at_def)

section \<open>The claims\<close>

text \<open>
  C1, as the code has it. Take any state reached by running the operations (create,
  update, delete event, propose, respond) one after the other, each handler finishing
  before the next starts and every write succeeding. There, a stored event that is
  referenced by a \<open>PENDING\<close> request has status \<open>SWAP_PENDING\<close> and is referenced by
  exactly one \<open>PENDING\<close> request. A stored event that no create or update call
  stored as \<open>SWAP_PENDING\<close> has status \<open>SWAP_PENDING\<close> if and only if exactly one
  \<open>PENDING\<close> request references it. A stored event that a create or update call did
  store as \<open>SWAP_PENDING\<close> still has that status and no \<open>PENDING\<close> request
  references it. Nothing is said about requests that are served interleaved.
\<close>

theorem locked_iff_one_pending:
  assumes "events (run ops) e = Some ev"
  shows "(0 < pending_refs (run ops) e \<longrightarrow>
            status ev = SWAP_PENDING \<and> pending_refs (run ops) e = 1) \<and>
         (e \<notin> hand_locked init_db ops \<longrightarrow>
            (status ev = SWAP_PENDING \<longleftrightarrow> pending_refs (run ops) e = 1)) \<and>
         (e \<in> hand_locked init_db ops \<longrightarrow>
            status ev = SWAP_PENDING \<and> pending_refs (run ops) e = 0)"
proof -
  from run_fresh_locked [of ops] have inv: "locked_inv (run ops)" by simp
  with assms have one: "0 < pending_refs (run ops) e \<longrightarrow>
      status ev = SWAP_PENDING \<and> pending_refs (run ops) e = 1"
    unfolding locked_inv_def by blast
  have "status ev = SWAP_PENDING \<longleftrightarrow> pending_refs (run ops) e = 1"
    if "e \<notin> hand_locked init_db ops"
  proof
    assume "status ev = SWAP_PENDING"
    with hand_live [OF run_hand assms that] have "0 < pending_refs (run ops) e" .
    with one show "pending_refs (run ops) e = 1" by simp
  next
    assume "pending_refs (run ops) e = 1"
    with one show "status ev = SWAP_PENDING" by simp
  qed
  moreover have "status ev = SWAP_PENDING \<and> pending_refs (run ops) e = 0"
    if "e \<in> hand_locked init_db ops"
    using hand_stuck [OF run_hand assms that] .
  ultimately show ?thesis using one by blast
qed

theorem locked_iff_one_pending_witness:
  "hand_locked init_db proposed_and_locked = {3} \<and>
   map_option status (events (run proposed_and_locked) 0) = Some SWAP_PENDING \<and>
   pending_refs (run proposed_and_locked) 0 = 1 \<and>
   map_option status (events (run proposed_and_locked) 3) = Some SWAP_PENDING \<and>
   pending_refs (run proposed_and_locked) 3 = 0"
proof -
  have e0: "events (run proposed_and_locked) 0 =
      Some \<lparr>user_id = 7, title = ''a'', start_time = 1, end_time = 2, status = SWAP_PENDING\<rparr>"
    and e3: "events (run proposed_and_locked) 3 =
      Some \<lparr>user_id = 9, title = ''a'', start_time = 5, end_time = 6, status = SWAP_PENDING\<rparr>"
    by (simp_all add: run_proposed_and_locked)
  have by_hand: "hand_locked init_db proposed_and_locked = {3}"
    by (rule hand_locked_proposed_and_locked)
  have out: "0 \<notin> hand_locked init_db proposed_and_locked"
    and inside: "3 \<in> hand_locked init_db proposed_and_locked"
    by (simp_all add: by_hand)
  from locked_iff_one_pending [OF e0, THEN conjunct2, THEN conjunct1] out
  have "status \<lparr>user_id = 7, title = ''a'', start_time = 1, end_time = 2, status = SWAP_PENDING\<rparr>
      = SWAP_PENDING \<longleftrightarrow> pending_refs (run proposed_and_locked) 0 = 1"
    by (rule mp)
  then have p0: "pending_refs (run proposed_and_locked) 0 = 1" by simp
  from locked_iff_one_pending [OF e3, THEN conjunct2, THEN conjunct2] inside
  have "status \<lparr>user_id = 9, title = ''a'', start_time = 5, end_time = 6, status = SWAP_PENDING\<rparr>
      = SWAP_PENDING \<and> pending_refs (run proposed_and_locked) 3 = 0"
    by (rule mp)
  then have p3: "pending_refs (run proposed_and_locked) 3 = 0" by simp
  from p0 p3 e0 e3 by_hand show ?thesis by simp
qed

text \<open>
  C1 as stated fails, in two ways. A caller creates an event with status
  \<open>SWAP_PENDING\<close>: it is stored with that status and no request exists. And two
  proposals against event 1 are served interleaved, every write succeeding: both pass
  their checks on the store where events 0, 1 and 2 are \<open>SWAPPABLE\<close>, then both
  write; event 1 is \<open>SWAP_PENDING\<close> and two \<open>PENDING\<close> requests reference it.
\<close>

theorem one_pending_request_counterexample:
  "map_option status (events (run [CreateEvent 7 (ev_body ''a'' 1 2 (Some ''SWAP_PENDING''))]) 0) =
     Some SWAP_PENDING \<and>
   pending_refs (run [CreateEvent 7 (ev_body ''a'' 1 2 (Some ''SWAP_PENDING''))]) 0 = 0 \<and>
   propose_reads (run three_swappable) 7 (slots 0 1) = Inr (0, 1, 8) \<and>
   propose_reads (run three_swappable) 9 (slots 2 1) = Inr (2, 1, 8) \<and>
   map_option status (events raced 1) = Some SWAP_PENDING \<and>
   pending_refs raced 1 = 2"
proof -
  have "map_option status
      (events (run [CreateEvent 7 (ev_body ''a'' 1 2 (Some ''SWAP_PENDING''))]) 0) =
     Some SWAP_PENDING \<and>
   pending_refs (run [CreateEvent 7 (ev_body ''a'' 1 2 (Some ''SWAP_PENDING''))]) 0 = 0"
    by (simp add: run_def init_db_def events_post_def ev_body_def valid_title_def trim_sample
        event_status_enum_def Let_def pending_refs_def)
  moreover have "propose_reads (run three_swappable) 7 (slots 0 1) = Inr (0, 1, 8)"
    "propose_reads (run three_swappable) 9 (slots 2 1) = Inr (2, 1, 8)"
    by (simp_all add: run_three_swappable propose_reads_def slots_def)
  moreover have "map_option status (events raced 1) = Some SWAP_PENDING \<and>
      pending_refs raced 1 = 2"
    by (simp add: raced_def run_three_swappable propose_writes_def Let_def
        findByIdAndUpdate_def pending_refs_def references_def)
  ultimately show ?thesis by simp
qed

text \<open>
  C2. For a \<open>PENDING\<close> swap request whose two referenced events exist and whose
  recipient is the responder (all writes succeeding), respond succeeds; with
  \<open>accept = true\<close> the requester event gets the recipient event's previous owner and
  the recipient event the requester event's previous owner, and both get status
  \<open>BUSY\<close>; with \<open>accept = false\<close> both events get status \<open>SWAPPABLE\<close> and keep
  their owners. Nothing else of the two events changes.
\<close>

theorem respond_swaps_or_releases:
  assumes "map_of (requests d) rid = Some r" and "req_status r = PENDING"
    and "recipient_id r = uid"
    and "events d (requester_event_id r) = Some ea"
    and "events d (recipient_event_id r) = Some eb"
  shows "\<not> isl (fst (swapResponseHandler {} d uid rid accept)) \<and>
         events (snd (swapResponseHandler {} d uid rid accept)) (requester_event_id r) =
           Some (if accept then ea\<lparr>user_id := user_id eb, status := BUSY\<rparr>
                 else ea\<lparr>status := SWAPPABLE\<rparr>) \<and>
         events (snd (swapResponseHandler {} d uid rid accept)) (recipient_event_id r) =
           Some (if accept then eb\<lparr>user_id := user_id ea, status := BUSY\<rparr>
                 else eb\<lparr>status := SWAPPABLE\<rparr>)"
  using assms
  by (auto simp: swapResponseHandler_def Let_def findByIdAndUpdate_def save_event_def
      save_request_status_def)

theorem respond_swaps_or_releases_witness:
  "events (snd (swapResponseHandler {} (run proposed) 8 2 True)) 0 =
     Some \<lparr>user_id = 8, title = ''a'', start_time = 1, end_time = 2, status = BUSY\<rparr> \<and>
   events (snd (swapResponseHandler {} (run proposed) 8 2 True)) 1 =
     Some \<lparr>user_id = 7, title = ''b'', start_time = 3, end_time = 4, status = BUSY\<rparr> \<and>
   events (snd (swapResponseHandler {} (run proposed) 8 2 False)) 0 =
     Some \<lparr>user_id = 7, title = ''a'', start_time = 1, end_time = 2, status = SWAPPABLE\<rparr> \<and>
   events (snd (swapResponseHandler {} (run proposed) 8 2 False)) 1 =
     Some \<lparr>user_id = 8, title = ''b'', start_time = 3, end_time = 4, status = SWAPPABLE\<rparr>"
  using
    respond_swaps_or_releases [where d = proposed_db and rid = 2 and uid = 8 and accept = True
      and r = "\<lparr>requester_id = 7, requester_event_id = 0, recipient_id = 8,
                recipient_event_id = 1, req_status = PENDING, createdAt = 100\<rparr>"
      and ea = "\<lparr>user_id = 7, title = ''a'', start_time = 1, end_time = 2, status = SWAP_PENDING\<rparr>"
      and eb = "\<lparr>user_id = 8, title = ''b'', start_time = 3, end_time = 4, status = SWAP_PENDING\<rparr>"]
    respond_swaps_or_releases [where d = proposed_db and rid = 2 and uid = 8 and accept = False
      and r = "\<lparr>requester_id = 7, requester_event_id = 0, recipient_id = 8,
                recipient_event_id = 1, req_status = PENDING, createdAt = 100\<rparr>"
      and ea = "\<lparr>user_id = 7, title = ''a'', start_time = 1, end_time = 2, status = SWAP_PENDING\<rparr>"
      and eb = "\<lparr>user_id = 8, title = ''b'', start_time = 3, end_time = 4, status = SWAP_PENDING\<rparr>"]
  by (simp add: run_proposed) (simp add: proposed_db_def)




text \<open>
  C4. The delete route does not look at the status. User 7 deletes event 0 while it is
  \<open>SWAP_PENDING\<close> and referenced by the pending request 2: the call succeeds and the
  event is gone. Event 1 stays \<open>SWAP_PENDING\<close>, request 2 stays \<open>PENDING\<close>, and a
  later respond on it fails with 404.
\<close>

theorem delete_locked_event:
  "map_option status (events (run proposed) 0) = Some SWAP_PENDING \<and>
   pending_refs (run proposed) 0 = 1 \<and>
   events_delete {} (run proposed) 7 0 =
     (Inr ''Event deleted successfully'',
      \<lparr>events = [1 \<mapsto> \<lparr>user_id = 8, title = ''b'', start_time = 3, end_time = 4,
                        status = SWAP_PENDING\<rparr>],
       requests = [(2, \<lparr>requester_id = 7, requester_event_id = 0, recipient_id = 8,
                        recipient_event_id = 1, req_status = PENDING, createdAt = 100\<rparr>)],
       next_id = 3\<rparr>) \<and>
   fst (swapResponseHandler {} (snd (events_delete {} (run proposed) 7 0)) 8 2 False) =
     Inl (Error 404 ''One or both events no longer exist'')"
  by (simp add: run_proposed proposed_db_def events_delete_def pending_refs_def references_def
      swapResponseHandler_def fun_upd_twist)

text \<open>
  C5, as the code has it. The swap routes have no \<open>SelfSwap\<close> failure. When the two
  referenced events exist and have the same owner, propose fails with 403 (Forbidden)
  if the caller is not that owner and with 400 (NotSwappable) if the caller is the
  owner and one of the events is not \<open>SWAPPABLE\<close>, and the store is unchanged in both
  cases. When the caller is the owner and both events are \<open>SWAPPABLE\<close> (writes
  succeeding), propose succeeds: a \<open>PENDING\<close> request with the caller as requester
  and as recipient is stored and both events become \<open>SWAP_PENDING\<close>.
\<close>

theorem propose_same_owner:
  assumes "or_else (b_mySlotId b) (b_requester_event_id b) = Some my"
    and "or_else (b_theirSlotId b) (b_recipient_event_id b) = Some their"
    and "events d my = Some re" and "events d their = Some ce"
    and "user_id re = user_id ce"
  shows "(uid \<noteq> user_id re \<longrightarrow>
            swap_requests_post F d uid now b =
              (Inl (Forbidden ''You do not own the requester event''), d)) \<and>
         (uid = user_id re \<and> (status re \<noteq> SWAPPABLE \<or> status ce \<noteq> SWAPPABLE) \<longrightarrow>
            swap_requests_post F d uid now b = (Inl NotSwappable, d)) \<and>
         (uid = user_id re \<and> status re = SWAPPABLE \<and> status ce = SWAPPABLE \<longrightarrow>
            \<not> isl (fst (swap_requests_post {} d uid now b)) \<and>
            requests (snd (swap_requests_post {} d uid now b)) =
              requests d @ [(next_id d, \<lparr>requester_id = uid, requester_event_id = my,
                 recipient_id = uid, recipient_event_id = their,
                 req_status = PENDING, createdAt = now\<rparr>)] \<and>
            events (snd (swap_requests_post {} d uid now b)) my =
              Some (re\<lparr>status := SWAP_PENDING\<rparr>) \<and>
            events (snd (swap_requests_post {} d uid now b)) their =
              Some (ce\<lparr>status := SWAP_PENDING\<rparr>))"
  using assms
  by (auto simp: swap_requests_post_def NotSwappable_def Forbidden_def Let_def
      findByIdAndUpdate_def)

theorem propose_same_owner_witness:
  "swap_requests_post {} (run (created 7 (Some ''SWAPPABLE'') 7 (Some ''BUSY''))) 9 100 (slots 0 1) =
     (Inl (Forbidden ''You do not own the requester event''),
      run (created 7 (Some ''SWAPPABLE'') 7 (Some ''BUSY''))) \<and>
   swap_requests_post {} (run (created 7 (Some ''SWAPPABLE'') 7 (Some ''BUSY''))) 7 100 (slots 0 1) =
     (Inl NotSwappable, run (created 7 (Some ''SWAPPABLE'') 7 (Some ''BUSY''))) \<and>
   requests (snd (swap_requests_post {}
       (run (created 7 (Some ''SWAPPABLE'') 7 (Some ''SWAPPABLE''))) 7 100 (slots 0 1))) =
     [(2, \<lparr>requester_id = 7, requester_event_id = 0, recipient_id = 7,
           recipient_event_id = 1, req_status = PENDING, createdAt = 100\<rparr>)]"
proof -
  have busy: "run (created 7 (Some ''SWAPPABLE'') 7 (Some ''BUSY'')) =
      two_events 7 SWAPPABLE 7 BUSY"
    by (simp add: run_created event_status_enum_def)
  have free: "run (created 7 (Some ''SWAPPABLE'') 7 (Some ''SWAPPABLE'')) =
      two_events 7 SWAPPABLE 7 SWAPPABLE"
    by (simp add: run_created event_status_enum_def)
  show ?thesis
    unfolding busy free
    using
      propose_same_owner [where b = "slots 0 1" and my = 0 and their = 1 and uid = 9
        and d = "two_events 7 SWAPPABLE 7 BUSY" and F = "{}" and now = 100
        and re = "\<lparr>user_id = 7, title = ''a'', start_time = 1, end_time = 2, status = SWAPPABLE\<rparr>"
        and ce = "\<lparr>user_id = 7, title = ''b'', start_time = 3, end_time = 4, status = BUSY\<rparr>"]
      propose_same_owner [where b = "slots 0 1" and my = 0 and their = 1 and uid = 7
        and d = "two_events 7 SWAPPABLE 7 BUSY" and F = "{}" and now = 100
        and re = "\<lparr>user_id = 7, title = ''a'', start_time = 1, end_time = 2, status = SWAPPABLE\<rparr>"
        and ce = "\<lparr>user_id = 7, title = ''b'', start_time = 3, end_time = 4, status = BUSY\<rparr>"]
      propose_same_owner [where b = "slots 0 1" and my = 0 and their = 1 and uid = 7
        and d = "two_events 7 SWAPPABLE 7 SWAPPABLE" and F = "{}" and now = 100
        and re = "\<lparr>user_id = 7, title = ''a'', start_time = 1, end_time = 2, status = SWAPPABLE\<rparr>"
        and ce = "\<lparr>user_id = 7, title = ''b'', start_time = 3, end_time = 4, status = SWAPPABLE\<rparr>"]
    by (simp add: two_events_def slots_def)
qed

text \<open>
  C5 as stated fails: user 7 owns both event 0 and event 1, both \<open>SWAPPABLE\<close>, and
  proposes to swap one against the other. The call succeeds, request 2 from user 7 to
  user 7 is stored as \<open>PENDING\<close>, and both events are locked.
\<close>

theorem propose_self_swap_counterexample:
  "swap_requests_post {} (run (created 7 (Some ''SWAPPABLE'') 7 (Some ''SWAPPABLE''))) 7 100 (slots 0 1) =
     (Inr (2, \<lparr>requester_id = 7, requester_event_id = 0, recipient_id = 7,
               recipient_event_id = 1, req_status = PENDING, createdAt = 100\<rparr>,
           Some \<lparr>user_id = 7, title = ''a'', start_time = 1, end_time = 2, status = SWAP_PENDING\<rparr>,
           Some \<lparr>user_id = 7, title = ''b'', start_time = 3, end_time = 4, status = SWAP_PENDING\<rparr>),
      \<lparr>events = [0 \<mapsto> \<lparr>user_id = 7, title = ''a'', start_time = 1, end_time = 2,
                        status = SWAP_PENDING\<rparr>,
                 1 \<mapsto> \<lparr>user_id = 7, title = ''b'', start_time = 3, end_time = 4,
                        status = SWAP_PENDING\<rparr>],
       requests = [(2, \<lparr>requester_id = 7, requester_event_id = 0, recipient_id = 7,
                        recipient_event_id = 1, req_status = PENDING, createdAt = 100\<rparr>)],
       next_id = 3\<rparr>)"
  by (simp add: run_created [where ?t1.0 = SWAPPABLE and ?t2.0 = SWAPPABLE] event_status_enum_def
      two_events_def swap_requests_post_def slots_def Let_def findByIdAndUpdate_def populate_def
      numeral_3_eq_3 fun_upd_twist)

text \<open>
  C6. When both referenced events exist, the caller owns the first, and at least one of
  the two does not have status \<open>SWAPPABLE\<close>, propose fails with NotSwappable (the 400
  "One or both events are no longer swappable") and returns the store as it was: no
  request is created and no status changes. This holds whatever writes would fail.
\<close>

theorem propose_not_swappable:
  assumes "or_else (b_mySlotId b) (b_requester_event_id b) = Some my"
    and "or_else (b_theirSlotId b) (b_recipient_event_id b) = Some their"
    and "events d my = Some re" and "events d their = Some ce"
    and "user_id re = uid"
    and "status re \<noteq> SWAPPABLE \<or> status ce \<noteq> SWAPPABLE"
  shows "swap_requests_post F d uid now b = (Inl NotSwappable, d)"
  using assms by (auto simp: swap_requests_post_def NotSwappable_def)

theorem propose_not_swappable_witness:
  "swap_requests_post {} (run (created 7 (Some ''SWAPPABLE'') 8 None)) 7 100 (slots 0 1) =
     (Inl NotSwappable, run (created 7 (Some ''SWAPPABLE'') 8 None))"
  using
    propose_not_swappable [where b = "slots 0 1" and my = 0 and their = 1 and uid = 7
      and d = "two_events 7 SWAPPABLE 8 BUSY" and F = "{}" and now = 100
      and re = "\<lparr>user_id = 7, title = ''a'', start_time = 1, end_time = 2, status = SWAPPABLE\<rparr>"
      and ce = "\<lparr>user_id = 8, title = ''b'', start_time = 3, end_time = 4, status = BUSY\<rparr>"]
  by (simp add: run_created [where ?t1.0 = SWAPPABLE and ?t2.0 = BUSY] event_status_enum_def)
     (simp add: two_events_def slots_def)

text \<open>
  C7, as the code has it. The recipient check comes before the status check. A respond
  call on a request whose status is \<open>ACCEPTED\<close> or \<open>REJECTED\<close> fails with
  AlreadyResolved (the 400 "Swap request is no longer pending") when the caller is the
  request's recipient and with 403 (Forbidden) for every other caller; either way, and
  whatever \<open>accept\<close> is, the store is returned as it was. No later sequence of
  operations changes the stored request, so a request leaves \<open>PENDING\<close> at most once.
\<close>

theorem respond_on_resolved:
  assumes "map_of (requests d) rid = Some r"
    and "req_status r = ACCEPTED \<or> req_status r = REJECTED"
  shows "swapResponseHandler F d uid rid accept =
           (Inl (if recipient_id r = uid then AlreadyResolved
                 else Forbidden ''You are not authorized to respond to this request''), d) \<and>
         map_of (requests (foldl step d xs)) rid = Some r"
proof -
  from assms have "swapResponseHandler F d uid rid accept =
           (Inl (if recipient_id r = uid then AlreadyResolved
                 else Forbidden ''You are not authorized to respond to this request''), d)"
    by (auto simp: swapResponseHandler_def AlreadyResolved_def Forbidden_def)
  moreover from assms have "req_status r \<noteq> PENDING" by auto
  with assms(1) have "map_of (requests (foldl step d xs)) rid = Some r"
    by (rule steps_keep_resolved)
  ultimately show ?thesis by simp
qed

theorem respond_on_resolved_witness:
  "swapResponseHandler {} (run accepted) 8 2 False = (Inl AlreadyResolved, run accepted) \<and>
   swapResponseHandler {} (run accepted) 9 2 True =
     (Inl (Forbidden ''You are not authorized to respond to this request''), run accepted) \<and>
   map_of (requests (foldl step (run accepted) [Respond 8 2 False, DeleteEvent 8 0])) 2 =
     Some \<lparr>requester_id = 7, requester_event_id = 0, recipient_id = 8,
           recipient_event_id = 1, req_status = ACCEPTED, createdAt = 100\<rparr>"
proof -
  have stored: "map_of (requests accepted_db) 2 =
      Some \<lparr>requester_id = 7, requester_event_id = 0, recipient_id = 8,
            recipient_event_id = 1, req_status = ACCEPTED, createdAt = 100\<rparr>"
    by (simp add: accepted_db_def)
  have resolved: "req_status \<lparr>requester_id = 7, requester_event_id = 0, recipient_id = 8,
            recipient_event_id = 1, req_status = ACCEPTED, createdAt = 100\<rparr> = ACCEPTED \<or>
       req_status \<lparr>requester_id = 7, requester_event_id = 0, recipient_id = 8,
            recipient_event_id = 1, req_status = ACCEPTED, createdAt = 100\<rparr> = REJECTED"
    by simp
  from respond_on_resolved [OF stored resolved, where uid = 8 and accept = False and F = "{}"
      and xs = "[Respond 8 2 False, DeleteEvent 8 0]"]
  have by_recipient:
    "swapResponseHandler {} accepted_db 8 2 False = (Inl AlreadyResolved, accepted_db) \<and>
     map_of (requests (foldl step accepted_db [Respond 8 2 False, DeleteEvent 8 0])) 2 =
       Some \<lparr>requester_id = 7, requester_event_id = 0, recipient_id = 8,
             recipient_event_id = 1, req_status = ACCEPTED, createdAt = 100\<rparr>"
    by (simp only: swap_request.select_convs if_True refl)
  from respond_on_resolved [OF stored resolved, where uid = 9 and accept = True and F = "{}"
      and xs = "[]"]
  have by_other: "swapResponseHandler {} accepted_db 9 2 True =
      (Inl (Forbidden ''You are not authorized to respond to this request''), accepted_db)"
    by simp
  from by_recipient by_other show ?thesis
    unfolding run_accepted by (simp only: simp_thms)
qed

text \<open>
  C7 as stated fails for a caller who is not the recipient: request 2 is \<open>ACCEPTED\<close>,
  user 9 responds to it and gets the 403, not AlreadyResolved.
\<close>

theorem respond_on_resolved_counterexample:
  "map_option req_status (map_of (requests (run accepted)) 2) = Some ACCEPTED \<and>
   fst (swapResponseHandler {} (run accepted) 9 2 True) =
     Inl (Error 403 ''You are not authorized to respond to this request'') \<and>
   fst (swapResponseHandler {} (run accepted) 9 2 True) \<noteq> Inl AlreadyResolved"
  by (simp add: run_accepted accepted_db_def swapResponseHandler_def AlreadyResolved_def)

text \<open>
  C8. In a state reached by the operations, let events \<open>a\<close> and \<open>b\<close> be
  \<open>SWAPPABLE\<close> with distinct owners. The owner of \<open>a\<close> proposes \<open>a\<close> against
  \<open>b\<close>: the call succeeds with a new \<open>PENDING\<close> request. The owner of \<open>b\<close>
  rejects it: the call succeeds and both events are stored exactly as before the
  proposal (status \<open>SWAPPABLE\<close>, same owners). A second proposal on the same pair
  then succeeds, stores a new \<open>PENDING\<close> request and locks both events again.
\<close>

theorem propose_reject_propose:
  assumes my: "or_else (b_mySlotId body) (b_requester_event_id body) = Some a"
    and their: "or_else (b_theirSlotId body) (b_recipient_event_id body) = Some b"
    and ea: "events (run ops) a = Some ea" and eb: "events (run ops) b = Some eb"
    and sa: "status ea = SWAPPABLE" and sb: "status eb = SWAPPABLE"
    and owners: "user_id ea \<noteq> user_id eb"
  shows
    "let d = run ops;
         rid = next_id d;
         r = \<lparr>requester_id = user_id ea, requester_event_id = a, recipient_id = user_id eb,
              recipient_event_id = b, req_status = PENDING, createdAt = now\<rparr>;
         d1 = snd (swap_requests_post {} d (user_id ea) now body);
         d2 = snd (swapResponseHandler {} d1 (user_id eb) rid False);
         d3 = snd (swap_requests_post {} d2 (user_id ea) now' body)
     in fst (swap_requests_post {} d (user_id ea) now body) =
          Inr (rid, r, Some (ea\<lparr>status := SWAP_PENDING\<rparr>), Some (eb\<lparr>status := SWAP_PENDING\<rparr>)) \<and>
        fst (swapResponseHandler {} d1 (user_id eb) rid False) =
          Inr (rid, r\<lparr>req_status := REJECTED\<rparr>, Some ea, Some eb) \<and>
        events d2 a = Some ea \<and> events d2 b = Some eb \<and>
        fst (swap_requests_post {} d2 (user_id ea) now' body) =
          Inr (next_id d2, r\<lparr>createdAt := now'\<rparr>,
               Some (ea\<lparr>status := SWAP_PENDING\<rparr>), Some (eb\<lparr>status := SWAP_PENDING\<rparr>)) \<and>
        requests d3 = requests d2 @ [(next_id d2, r\<lparr>createdAt := now'\<rparr>)] \<and>
        events d3 a = Some (ea\<lparr>status := SWAP_PENDING\<rparr>) \<and>
        events d3 b = Some (eb\<lparr>status := SWAP_PENDING\<rparr>)"
proof -
  define d where "d = run ops"
  define r where "r = \<lparr>requester_id = user_id ea, requester_event_id = a,
     recipient_id = user_id eb, recipient_event_id = b, req_status = PENDING, createdAt = now\<rparr>"
  define d1 where "d1 = d\<lparr>events := (events d)(a \<mapsto> ea\<lparr>status := SWAP_PENDING\<rparr>,
        b \<mapsto> eb\<lparr>status := SWAP_PENDING\<rparr>),
      requests := requests d @ [(next_id d, r)], next_id := Suc (next_id d)\<rparr>"
  define d2 where "d2 = d1\<lparr>events := (events d)(a \<mapsto> ea, b \<mapsto> eb),
      requests := requests (save_request_status d1 (next_id d) REJECTED)\<rparr>"
  from owners ea eb have ab: "a \<noteq> b" by auto
  from run_fresh_locked [of ops] have "fresh_ids d" by (simp add: d_def)
  then have fresh: "map_of (requests d) (next_id d) = None" by (rule fresh_ids_new_key)
  have first: "swap_requests_post {} d (user_id ea) now body =
      (Inr (next_id d, r, Some (ea\<lparr>status := SWAP_PENDING\<rparr>), Some (eb\<lparr>status := SWAP_PENDING\<rparr>)), d1)"
    unfolding d1_def r_def
    using my their ea eb sa sb ab by (simp add: swap_requests_post_ok d_def)
  have look: "map_of (requests d1) (next_id d) = Some r"
    using fresh by (simp add: d1_def map_add_def)
  have e1: "events d1 a = Some (ea\<lparr>status := SWAP_PENDING\<rparr>)"
    "events d1 b = Some (eb\<lparr>status := SWAP_PENDING\<rparr>)"
    using ab by (simp_all add: d1_def)
  have second: "swapResponseHandler {} d1 (user_id eb) (next_id d) False =
      (Inr (next_id d, r\<lparr>req_status := REJECTED\<rparr>, Some ea, Some eb), d2)"
    using look e1 ab sa sb
    by (simp add: swapResponseHandler_def Let_def findByIdAndUpdate_def populate_def
        save_request_status_def r_def d2_def d1_def status_same fun_upd_twist)
  have e2: "events d2 a = Some ea" "events d2 b = Some eb"
    using ab by (simp_all add: d2_def)
  have third: "swap_requests_post {} d2 (user_id ea) now' body =
     (Inr (next_id d2, r\<lparr>createdAt := now'\<rparr>,
           Some (ea\<lparr>status := SWAP_PENDING\<rparr>), Some (eb\<lparr>status := SWAP_PENDING\<rparr>)),
      d2\<lparr>events := (events d2)(a \<mapsto> ea\<lparr>status := SWAP_PENDING\<rparr>, b \<mapsto> eb\<lparr>status := SWAP_PENDING\<rparr>),
        requests := requests d2 @ [(next_id d2, r\<lparr>createdAt := now'\<rparr>)],
        next_id := Suc (next_id d2)\<rparr>)"
    using my their e2 sa sb ab by (simp add: swap_requests_post_ok r_def)
  from first second third e2 ab show ?thesis
    by (simp add: Let_def d_def [symmetric] r_def [symmetric])
qed


theorem propose_reject_propose_witness:
  "let d = run (created 7 (Some ''SWAPPABLE'') 8 (Some ''SWAPPABLE''));
       r = \<lparr>requester_id = 7, requester_event_id = 0, recipient_id = 8,
            recipient_event_id = 1, req_status = PENDING, createdAt = 100\<rparr>;
       ea = \<lparr>user_id = 7, title = ''a'', start_time = 1, end_time = 2, status = SWAPPABLE\<rparr>;
       eb = \<lparr>user_id = 8, title = ''b'', start_time = 3, end_time = 4, status = SWAPPABLE\<rparr>;
       d1 = snd (swap_requests_post {} d 7 100 (slots 0 1));
       d2 = snd (swapResponseHandler {} d1 8 (next_id d) False);
       d3 = snd (swap_requests_post {} d2 7 200 (slots 0 1))
   in fst (swap_requests_post {} d 7 100 (slots 0 1)) =
        Inr (next_id d, r, Some (ea\<lparr>status := SWAP_PENDING\<rparr>), Some (eb\<lparr>status := SWAP_PENDING\<rparr>)) \<and>
      fst (swapResponseHandler {} d1 8 (next_id d) False) =
        Inr (next_id d, r\<lparr>req_status := REJECTED\<rparr>, Some ea, Some eb) \<and>
      events d2 0 = Some ea \<and> events d2 1 = Some eb \<and>
      fst (swap_requests_post {} d2 7 200 (slots 0 1)) =
        Inr (next_id d2, r\<lparr>createdAt := 200\<rparr>,
             Some (ea\<lparr>status := SWAP_PENDING\<rparr>), Some (eb\<lparr>status := SWAP_PENDING\<rparr>)) \<and>
      requests d3 = requests d2 @ [(next_id d2, r\<lparr>createdAt := 200\<rparr>)] \<and>
      events d3 0 = Some (ea\<lparr>status := SWAP_PENDING\<rparr>) \<and>
      events d3 1 = Some (eb\<lparr>status := SWAP_PENDING\<rparr>)"
proof -
  have d: "run (created 7 (Some ''SWAPPABLE'') 8 (Some ''SWAPPABLE'')) =
      two_events 7 SWAPPABLE 8 SWAPPABLE"
    by (simp add: run_created event_status_enum_def)
  have h: "or_else (b_mySlotId (slots 0 1)) (b_requester_event_id (slots 0 1)) = Some 0"
    "or_else (b_theirSlotId (slots 0 1)) (b_recipient_event_id (slots 0 1)) = Some 1"
    "events (run (created 7 (Some ''SWAPPABLE'') 8 (Some ''SWAPPABLE''))) 0 =
       Some \<lparr>user_id = 7, title = ''a'', start_time = 1, end_time = 2, status = SWAPPABLE\<rparr>"
    "events (run (created 7 (Some ''SWAPPABLE'') 8 (Some ''SWAPPABLE''))) 1 =
       Some \<lparr>user_id = 8, title = ''b'', start_time = 3, end_time = 4, status = SWAPPABLE\<rparr>"
    by (simp_all add: d two_events_def slots_def)
  from propose_reject_propose [OF h, where now = 100 and now' = 200]
  show ?thesis by (simp add: Let_def)
qed

text \<open>
  C9. The order of the two listings, on the store after \<open>two_proposals\<close>: user 8's
  incoming and user 7's outgoing requests come back with request 4 (created at 100)
  before request 5 (created at 200), oldest first.
\<close>

theorem listing_oldest_first:
  "map (\<lambda>p. (fst p, createdAt (fst (snd p)))) (fst (swap_requests_incoming (run two_proposals) 8)) =
     [(4, 100), (5, 200)] \<and>
   map (\<lambda>p. (fst p, createdAt (fst (snd p)))) (fst (swap_requests_outgoing (run two_proposals) 7)) =
     [(4, 100), (5, 200)]"
  by (simp add: listing_store_order run_def two_proposals_def init_db_def events_post_def
      ev_body_def valid_title_def trim_sample event_status_enum_def Let_def
      swap_requests_post_def slots_def findByIdAndUpdate_def populate_def)

text \<open>
  C10. Create and update store the status the caller supplies. With a status \<open>s\<close> of
  the schema's enum: a create call whose title, start and end pass validation stores
  the new event with status \<open>s\<close>, and with status \<open>BUSY\<close> when the body has no
  status; an update call with only the status \<open>s\<close> in its body, by the owner of an
  event that is not \<open>SWAP_PENDING\<close>, stores that event with status \<open>s\<close>; and any
  successful update whose body has status \<open>s\<close> leaves the event with status \<open>s\<close>.
  The requests are not looked at and not changed; \<open>s\<close> may be \<open>SWAP_PENDING\<close>.
\<close>

theorem status_as_supplied:
  assumes "event_status_enum s = Some st"
  shows
    "(nonempty (b_title b) = Some t \<and> valid_title t = Some t' \<and>
      b_start_time b = Some (Date a) \<and> b_end_time b = Some (Date z) \<and> a < z \<longrightarrow>
        (b_status b = Some s \<longrightarrow>
           events_post {} d uid b =
             (Inr (next_id d, \<lparr>user_id = uid, title = t', start_time = a, end_time = z, status = st\<rparr>),
              d\<lparr>events := (events d)(next_id d \<mapsto>
                    \<lparr>user_id = uid, title = t', start_time = a, end_time = z, status = st\<rparr>),
                next_id := Suc (next_id d)\<rparr>)) \<and>
        (b_status b = None \<longrightarrow>
           events_post {} d uid b =
             (Inr (next_id d, \<lparr>user_id = uid, title = t', start_time = a, end_time = z, status = BUSY\<rparr>),
              d\<lparr>events := (events d)(next_id d \<mapsto>
                    \<lparr>user_id = uid, title = t', start_time = a, end_time = z, status = BUSY\<rparr>),
                next_id := Suc (next_id d)\<rparr>))) \<and>
     (events d eid = Some ev \<and> user_id ev = uid \<and> status ev \<noteq> SWAP_PENDING \<longrightarrow>
        events_put {} d uid eid (status_only s) =
          (Inr (ev\<lparr>status := st\<rparr>), d\<lparr>events := (events d)(eid \<mapsto> ev\<lparr>status := st\<rparr>)\<rparr>)) \<and>
     (b_status b = Some s \<and> events_put {} d uid eid b = (Inr ev', d') \<longrightarrow>
        status ev' = st \<and> events d' eid = Some ev' \<and> requests d' = requests d)"
proof -
  from assms have ne: "s \<noteq> []" by (rule enum_nonempty)
  have create_given: "events_post {} d uid b =
             (Inr (next_id d, \<lparr>user_id = uid, title = t', start_time = a, end_time = z, status = st\<rparr>),
              d\<lparr>events := (events d)(next_id d \<mapsto>
                    \<lparr>user_id = uid, title = t', start_time = a, end_time = z, status = st\<rparr>),
                next_id := Suc (next_id d)\<rparr>)"
    if "nonempty (b_title b) = Some t" "valid_title t = Some t'"
      "b_start_time b = Some (Date a)" "b_end_time b = Some (Date z)" "a < z" "b_status b = Some s"
    using that assms ne by (simp add: events_post_def Let_def)
  have create_default: "events_post {} d uid b =
             (Inr (next_id d, \<lparr>user_id = uid, title = t', start_time = a, end_time = z, status = BUSY\<rparr>),
              d\<lparr>events := (events d)(next_id d \<mapsto>
                    \<lparr>user_id = uid, title = t', start_time = a, end_time = z, status = BUSY\<rparr>),
                next_id := Suc (next_id d)\<rparr>)"
    if "nonempty (b_title b) = Some t" "valid_title t = Some t'"
      "b_start_time b = Some (Date a)" "b_end_time b = Some (Date z)" "a < z" "b_status b = None"
    using that by (simp add: events_post_def Let_def event_status_enum_def)
  have update_status: "events_put {} d uid eid (status_only s) =
          (Inr (ev\<lparr>status := st\<rparr>), d\<lparr>events := (events d)(eid \<mapsto> ev\<lparr>status := st\<rparr>)\<rparr>)"
    if "events d eid = Some ev" "user_id ev = uid" "status ev \<noteq> SWAP_PENDING"
    using that assms ne by (simp add: events_put_def status_only_def Let_def)
  have update_any: "status ev' = st \<and> events d' eid = Some ev' \<and> requests d' = requests d"
    if "b_status b = Some s" "events_put {} d uid eid b = (Inr ev', d')"
    using that assms ne
    by (auto simp: events_put_def Let_def split: option.splits if_splits)
  from create_given create_default update_status update_any show ?thesis by blast
qed

theorem status_as_supplied_witness:
  "events_post {} init_db 7 (ev_body ''a'' 1 2 (Some ''SWAP_PENDING'')) =
     (Inr (0, \<lparr>user_id = 7, title = ''a'', start_time = 1, end_time = 2, status = SWAP_PENDING\<rparr>),
      \<lparr>events = [0 \<mapsto> \<lparr>user_id = 7, title = ''a'', start_time = 1, end_time = 2,
                        status = SWAP_PENDING\<rparr>],
       requests = [], next_id = 1\<rparr>) \<and>
   events_post {} init_db 7 (ev_body ''a'' 1 2 None) =
     (Inr (0, \<lparr>user_id = 7, title = ''a'', start_time = 1, end_time = 2, status = BUSY\<rparr>),
      \<lparr>events = [0 \<mapsto> \<lparr>user_id = 7, title = ''a'', start_time = 1, end_time = 2, status = BUSY\<rparr>],
       requests = [], next_id = 1\<rparr>) \<and>
   events_put {} (run [CreateEvent 7 (ev_body ''a'' 1 2 None)]) 7 0 (status_only ''SWAP_PENDING'') =
     (Inr \<lparr>user_id = 7, title = ''a'', start_time = 1, end_time = 2, status = SWAP_PENDING\<rparr>,
      \<lparr>events = [0 \<mapsto> \<lparr>user_id = 7, title = ''a'', start_time = 1, end_time = 2,
                        status = SWAP_PENDING\<rparr>],
       requests = [], next_id = 1\<rparr>)"
proof -
  have one: "run [CreateEvent 7 (ev_body ''a'' 1 2 None)] =
      \<lparr>events = [0 \<mapsto> \<lparr>user_id = 7, title = ''a'', start_time = 1, end_time = 2, status = BUSY\<rparr>],
       requests = [], next_id = 1\<rparr>"
    by (simp add: run_def init_db_def events_post_def ev_body_def valid_title_def trim_sample
        event_status_enum_def Let_def)
  show ?thesis
    unfolding one
    using status_as_supplied [where s = "''SWAP_PENDING''" and st = SWAP_PENDING
        and b = "ev_body ''a'' 1 2 (Some ''SWAP_PENDING'')" and t = "''a''" and t' = "''a''"
        and a = 1 and z = 2 and d = init_db and uid = 7]
      status_as_supplied [where s = "''SWAP_PENDING''" and st = SWAP_PENDING
        and b = "ev_body ''a'' 1 2 None" and t = "''a''" and t' = "''a''"
        and a = 1 and z = 2 and uid = 7 and eid = 0
        and d = "\<lparr>events = [0 \<mapsto> \<lparr>user_id = 7, title = ''a'', start_time = 1, end_time = 2,
                      status = BUSY\<rparr>], requests = [], next_id = 1\<rparr>"
        and ev = "\<lparr>user_id = 7, title = ''a'', start_time = 1, end_time = 2, status = BUSY\<rparr>"]
      status_as_supplied [where s = "''SWAP_PENDING''" and st = SWAP_PENDING
        and b = "ev_body ''a'' 1 2 None" and t = "''a''" and t' = "''a''"
        and a = 1 and z = 2 and d = init_db and uid = 7]
    by (simp add: event_status_enum_def ev_body_def valid_title_def trim_sample init_db_def)
qed

end
